theory Spec2Isabelle
  imports Main
begin

section \<open>JavaScript values and strings\<close>

text \<open>
  Strings are lists of 8-bit code units (the Latin-1 range of JavaScript's UTF-16 code
  units); numbers are integers, which is what task identifiers and millisecond time values
  are. A property that the source may leave out of an object is an \<open>option\<close>.
\<close>

datatype js_value = JUndefined | JNull | JNum int | JStr string

fun truthy :: "js_value \<Rightarrow> bool" where
  "truthy JUndefined = False"
| "truthy JNull = False"
| "truthy (JNum n) = (n \<noteq> 0)"
| "truthy (JStr s) = (s \<noteq> [])"

text \<open>The operator \<^verbatim>\<open>a || b\<close>.\<close>

definition js_or :: "js_value \<Rightarrow> js_value \<Rightarrow> js_value" where
  "js_or a b = (if truthy a then a else b)"

text \<open>Reading a string property that may be absent.\<close>

definition field :: "string option \<Rightarrow> js_value" where
  "field f = (case f of None \<Rightarrow> JUndefined | Some s \<Rightarrow> JStr s)"

definition digit_char :: "nat \<Rightarrow> char" where
  "digit_char d = ''0123456789'' ! d"

fun nat_toString :: "nat \<Rightarrow> string" where
  "nat_toString n =
     (if n < 10 then [digit_char n] else nat_toString (n div 10) @ [digit_char (n mod 10)])"

declare nat_toString.simps [simp del]

text \<open>
  \<^verbatim>\<open>Number.prototype.toString\<close> on an integer below \<open>10^21\<close> in absolute value, which
  the source prints with all its digits.
\<close>

definition number_toString :: "int \<Rightarrow> string" where
  "number_toString i =
     (if i < 0 then CHR ''-'' # nat_toString (nat (- i)) else nat_toString (nat i))"

text \<open>
  A number of the source is an IEEE double. The integers below \<open>2^53\<close> in absolute value
  are doubles, and sums of them in that range are exact; beyond it a sum is rounded to the
  nearest double, a tie going to the one with the even significand. \<open>double_round x\<close> is
  the double nearest to the integer \<open>x\<close>: at \<open>|x| \<ge> 2^53\<close> the doubles around \<open>x\<close> are the
  multiples of \<open>q = 2^(bit_length |x| - 53)\<close>. \<open>js_plus1 n\<close> is \<^verbatim>\<open>n + 1\<close> on a double \<open>n\<close>
  that is an integer (also \<^verbatim>\<open>n++\<close>); it never leaves the finite doubles.
\<close>

fun bit_length :: "nat \<Rightarrow> nat" where
  "bit_length n = (if n = 0 then 0 else Suc (bit_length (n div 2)))"

declare bit_length.simps [simp del]

definition double_round :: "int \<Rightarrow> int" where
  "double_round x =
     (if \<bar>x\<bar> < 9007199254740992 then x
      else
        let q = 2 ^ (bit_length (nat \<bar>x\<bar>) - 53);
            k = x div q;
            r = x mod q
        in if 2 * r < q then k * q
           else if q < 2 * r then (k + 1) * q
           else if even k then k * q
           else (k + 1) * q)"

definition js_plus1 :: "int \<Rightarrow> int" where
  "js_plus1 n = double_round (n + 1)"

definition startsWith :: "string \<Rightarrow> string \<Rightarrow> bool" where
  "startsWith s p = (take (length p) s = p)"

definition endsWith :: "string \<Rightarrow> string \<Rightarrow> bool" where
  "endsWith s p = (length p \<le> length s \<and> drop (length s - length p) s = p)"

text \<open>\<^verbatim>\<open>String.prototype.includes\<close>: the needle occurs at some position.\<close>

fun str_includes :: "string \<Rightarrow> string \<Rightarrow> bool" where
  "str_includes [] n = (n = [])"
| "str_includes (c # cs) n = (startsWith (c # cs) n \<or> str_includes cs n)"

definition toLowerChar :: "char \<Rightarrow> char" where
  "toLowerChar c =
     (let n = (of_char c :: nat)
      in if (65 \<le> n \<and> n \<le> 90) \<or> (192 \<le> n \<and> n \<le> 222 \<and> n \<noteq> 215)
         then char_of (n + 32) else c)"

definition toLowerCase :: "string \<Rightarrow> string" where
  "toLowerCase s = map toLowerChar s"

text \<open>White space and line terminators below code unit 256, as \<^verbatim>\<open>trim\<close> removes them.\<close>

definition isWhiteSpace :: "char \<Rightarrow> bool" where
  "isWhiteSpace c =
     (let n = (of_char c :: nat) in (9 \<le> n \<and> n \<le> 13) \<or> n = 32 \<or> n = 160)"

definition trim :: "string \<Rightarrow> string" where
  "trim s = rev (dropWhile isWhiteSpace (rev (dropWhile isWhiteSpace s)))"

text \<open>\<^verbatim>\<open>s.slice(2, -2)\<close>.\<close>

definition slice_2_m2 :: "string \<Rightarrow> string" where
  "slice_2_m2 s = take (length s - 4) (drop 2 s)"

section \<open>Data model\<close>

text \<open>
  The record an extraction pass produces for one checkbox line, and the fields a
  synchronisation copies. \<open>lastModified\<close> and \<open>lastSyncAt\<close> are read by the conflict
  check on either side.
\<close>

record vault_task =
  title :: string
  status :: string
  sourceFile :: "string option"
  description :: string
  priority :: string
  dependencies :: "int list"
  obsidianTags :: "string list"
  linkedNotes :: "string list"
  details :: string
  testStrategy :: string
  lastModified :: "string option"
  lastSyncAt :: "string option"

record subtask =
  sub_id :: int
  sub_title :: string

text \<open>A task of \<^verbatim>\<open>tasks.json\<close>.\<close>

record task = vault_task +
  task_id :: int
  syncStatus :: "string option"
  subtasks :: "subtask list option"

section \<open>Conflict detection\<close>

text \<open>
  A \<^verbatim>\<open>Date\<close> is its time value in milliseconds since the epoch, \<open>None\<close> for an invalid
  date (NaN). \<open>parse\<close> is \<^verbatim>\<open>Date.parse\<close> on strings, a parameter of the model.
\<close>

definition new_Date :: "(string \<Rightarrow> int option) \<Rightarrow> js_value \<Rightarrow> int option" where
  "new_Date parse v =
     (case v of JStr s \<Rightarrow> parse s | JNum n \<Rightarrow> Some n | JNull \<Rightarrow> Some 0 | JUndefined \<Rightarrow> None)"

text \<open>\<^verbatim>\<open>a > b\<close> on dates: false as soon as one of them is invalid.\<close>

definition date_gt :: "int option \<Rightarrow> int option \<Rightarrow> bool" where
  "date_gt a b = (case a of None \<Rightarrow> False | Some x \<Rightarrow> (case b of None \<Rightarrow> False | Some y \<Rightarrow> y < x))"

definition hasConflict ::
  "(string \<Rightarrow> int option) \<Rightarrow> 'a vault_task_scheme \<Rightarrow> 'b vault_task_scheme \<Rightarrow> bool" where
  "hasConflict parse taskA taskB =
     (if \<not> truthy (field (lastSyncAt taskA)) then False
      else
        let syncTime = new_Date parse (field (lastSyncAt taskA));
            taskTime = new_Date parse
              (js_or (js_or (field (lastModified taskB)) (field (lastSyncAt taskB))) (JNum 0))
        in date_gt taskTime syncTime \<and>
           (title taskA \<noteq> title taskB \<or>
            status taskA \<noteq> status taskB \<or>
            description taskA \<noteq> description taskB))"

text \<open>
  The conflict policy in the words of the specification. A timestamp is present when the
  property holds a non-empty string; the effective modification evidence of the incoming
  record is its \<open>lastModified\<close>, else its \<open>lastSyncAt\<close>, else the epoch.
\<close>

definition present :: "string option \<Rightarrow> bool" where
  "present f = (case f of None \<Rightarrow> False | Some s \<Rightarrow> s \<noteq> [])"

definition effective_evidence ::
  "(string \<Rightarrow> int option) \<Rightarrow> 'b vault_task_scheme \<Rightarrow> int option" where
  "effective_evidence parse r =
     (if present (lastModified r) then parse (the (lastModified r))
      else if present (lastSyncAt r) then parse (the (lastSyncAt r))
      else Some 0)"

definition strictly_newer :: "int option \<Rightarrow> int option \<Rightarrow> bool" where
  "strictly_newer a b = (a \<noteq> None \<and> b \<noteq> None \<and> the b < the a)"

definition spec_conflict ::
  "(string \<Rightarrow> int option) \<Rightarrow> 'a vault_task_scheme \<Rightarrow> 'b vault_task_scheme \<Rightarrow> bool" where
  "spec_conflict parse canonical incoming =
     (present (lastSyncAt canonical) \<and>
      strictly_newer (effective_evidence parse incoming) (parse (the (lastSyncAt canonical))) \<and>
      (title canonical \<noteq> title incoming \<or>
       status canonical \<noteq> status incoming \<or>
       description canonical \<noteq> description incoming))"

section \<open>Extraction of tasks from the vault\<close>

definition isLineTerminator :: "char \<Rightarrow> bool" where
  "isLineTerminator c = (c = CHR 0x0A \<or> c = CHR 0x0D)"

text \<open>The lines of a text: the stretches between line terminators.\<close>

fun split_lines :: "string \<Rightarrow> string list" where
  "split_lines [] = [[]]"
| "split_lines (c # cs) =
     (if isLineTerminator c then [] # split_lines cs
      else (case split_lines cs of [] \<Rightarrow> [[c]] | l # ls \<Rightarrow> (c # l) # ls))"

text \<open>
  \<^verbatim>\<open>content.match(/^- \[([ x])\] (.+)$/gm)\<close>: with the \<^verbatim>\<open>m\<close> flag the pattern is tried at the
  start of every line, and \<^verbatim>\<open>.+\<close> runs to the end of the line, so the matches are the whole
  lines that start with an empty or a ticked checkbox and go on for at least one character.
\<close>

definition isCheckboxLine :: "string \<Rightarrow> bool" where
  "isCheckboxLine l = ((startsWith l ''- [ ] '' \<or> startsWith l ''- [x] '') \<and> 6 < length l)"

definition taskMatches :: "string \<Rightarrow> string list" where
  "taskMatches content = filter isCheckboxLine (split_lines content)"

definition isWordChar :: "char \<Rightarrow> bool" where
  "isWordChar c =
     (let n = (of_char c :: nat)
      in (48 \<le> n \<and> n \<le> 57) \<or> (65 \<le> n \<and> n \<le> 90) \<or> (97 \<le> n \<and> n \<le> 122) \<or> n = 95)"

text \<open>\<^verbatim>\<open>content.match(/#\w+/g)\<close>, each match without its \<^verbatim>\<open>#\<close>.\<close>

function extractTagsFromContent :: "string \<Rightarrow> string list" where
  "extractTagsFromContent [] = []"
| "extractTagsFromContent (c # cs) =
     (if c = CHR ''#'' \<and> takeWhile isWordChar cs \<noteq> []
      then takeWhile isWordChar cs # extractTagsFromContent (dropWhile isWordChar cs)
      else extractTagsFromContent cs)"
  by pat_completeness auto
termination
  by (relation "measure length") (auto simp: length_dropWhile_le less_Suc_eq_le)

text \<open>
  \<^verbatim>\<open>content.match(/\[\[([^\]]+)\]\]/g)\<close>: after the opening brackets the longest run of
  characters other than \<^verbatim>\<open>]\<close>, not empty, then the closing brackets. The matches keep
  their brackets.
\<close>

function extractLinksFromContent :: "string \<Rightarrow> string list" where
  "extractLinksFromContent [] = []"
| "extractLinksFromContent (c # cs) =
     (let inner = takeWhile (\<lambda>x. x \<noteq> CHR '']'') (drop 1 cs);
          rest = dropWhile (\<lambda>x. x \<noteq> CHR '']'') (drop 1 cs)
      in if startsWith (c # cs) ''[['' \<and> inner \<noteq> [] \<and> startsWith rest '']]''
         then (''[['' @ inner @ '']]'') # extractLinksFromContent (drop 2 rest)
         else extractLinksFromContent cs)"
  by pat_completeness auto
termination
proof (relation "measure length")
  show "wf (measure length)" by simp
next
  fix c :: char and cs x xa :: string
  assume "xa = dropWhile (\<lambda>x. x \<noteq> CHR '']'') (drop 1 cs)"
  then have "length (drop 2 xa) \<le> length cs"
    using length_dropWhile_le [of "\<lambda>x. x \<noteq> CHR '']''" "drop 1 cs"] by simp
  then show "(drop 2 xa, c # cs) \<in> measure length" by simp
next
  fix c :: char and cs :: string
  show "(cs, c # cs) \<in> measure length" by simp
qed

text \<open>
  The files of the vault are given in the order \<^verbatim>\<open>glob.sync\<close> lists them, each with its
  content, or \<open>None\<close> when reading it throws (the source logs a warning and goes on).
\<close>

definition extractFileTasks :: "string \<Rightarrow> string \<Rightarrow> vault_task list" where
  "extractFileTasks file content =
     map (\<lambda>m.
        let isCompleted = str_includes m ''[x]'';
            taskText = drop 6 m
        in \<lparr> title = taskText,
             status = (if isCompleted then ''done'' else ''pending''),
             sourceFile = Some file,
             description = taskText,
             priority = ''medium'',
             dependencies = [],
             obsidianTags = extractTagsFromContent content,
             linkedNotes = extractLinksFromContent content,
             details = [],
             testStrategy = [],
             lastModified = None,
             lastSyncAt = None \<rparr>)
       (taskMatches content)"

definition extractTasksFromVault :: "(string \<times> string option) list \<Rightarrow> vault_task list" where
  "extractTasksFromVault markdownFiles =
     concat (map (\<lambda>(file, content).
        case content of None \<Rightarrow> [] | Some c \<Rightarrow> extractFileTasks file c) markdownFiles)"

section \<open>The canonical store and the vault's files\<close>

datatype effect = WriteJSON string "task list" | WriteFile string string

text \<open>
  The state outside the program: the store document (a partition of tasks under each tag),
  the files of the vault by path, the paths whose writing throws, and the journal of the
  writes performed so far.
\<close>

record world =
  store :: "string \<rightharpoonup> task list"
  files :: "string \<rightharpoonup> string"
  unwritable :: "string set"
  journal :: "effect list"

text \<open>
  Modelled from the spec: \<^verbatim>\<open>readJSON\<close> and \<^verbatim>\<open>writeJSON\<close> of \<^verbatim>\<open>scripts/modules/utils.js\<close>, the
  Canonical Store Accessor. Reading an absent partition gives no data; writing replaces
  the partition of the tag and leaves every other partition as it is.
\<close>

definition readJSON :: "world \<Rightarrow> string \<Rightarrow> task list option" where
  "readJSON w tag = store w tag"

definition writeJSON :: "string \<Rightarrow> task list \<Rightarrow> world \<Rightarrow> world" where
  "writeJSON tag ts w =
     w\<lparr> store := (store w)(tag \<mapsto> ts), journal := journal w @ [WriteJSON tag ts] \<rparr>"

record sync_results =
  updated :: nat
  created :: nat
  conflicts :: nat
  errors :: "(js_value \<times> string) list"

text \<open>
  The tally of a run. A tally that the source builds without a \<^verbatim>\<open>conflicts\<close> property (the
  early return of \<^verbatim>\<open>syncTasksFromObsidian\<close>, the tally of \<^verbatim>\<open>syncTasksToObsidian\<close>) has
  \<open>conflicts = 0\<close> here. An error is recorded with the id or title it is filed under and
  its message.
\<close>

definition no_results :: sync_results where
  "no_results = \<lparr> updated = 0, created = 0, conflicts = 0, errors = [] \<rparr>"

text \<open>
  The state of a pass over the extracted records: \<^verbatim>\<open>tasksData.tasks\<close>, the tally, and the
  number of timestamps taken so far (\<open>now k\<close> is what the \<open>k\<close>-th
  \<^verbatim>\<open>new Date().toISOString()\<close> of the pass returns).
\<close>

record sync_state =
  tasks :: "task list"
  results :: sync_results
  ticks :: nat

section \<open>Synchronisation from the vault\<close>

text \<open>\<^verbatim>\<open>Array.prototype.find\<close>, by the index of the element found, which the pass mutates.\<close>

fun find_idx :: "('a \<Rightarrow> bool) \<Rightarrow> 'a list \<Rightarrow> nat option" where
  "find_idx P [] = None"
| "find_idx P (x # xs) = (if P x then Some 0 else map_option Suc (find_idx P xs))"

text \<open>
  \<^verbatim>\<open>Object.assign(existingTask, vaultTask, {id, syncStatus, lastSyncAt})\<close>: every property
  the vault record has overwrites the task's; the id is kept.
\<close>

definition object_assign :: "task \<Rightarrow> vault_task \<Rightarrow> string \<Rightarrow> task" where
  "object_assign existingTask vaultTask stamp =
     existingTask\<lparr>
       title := title vaultTask,
       status := status vaultTask,
       sourceFile := (case sourceFile vaultTask of None \<Rightarrow> sourceFile existingTask | Some f \<Rightarrow> Some f),
       description := description vaultTask,
       priority := priority vaultTask,
       dependencies := dependencies vaultTask,
       obsidianTags := obsidianTags vaultTask,
       linkedNotes := linkedNotes vaultTask,
       details := details vaultTask,
       testStrategy := testStrategy vaultTask,
       lastModified := (case lastModified vaultTask of None \<Rightarrow> lastModified existingTask | Some m \<Rightarrow> Some m),
       task_id := task_id existingTask,
       syncStatus := Some ''synced'',
       lastSyncAt := Some stamp \<rparr>"

text \<open>\<^verbatim>\<open>{...vaultTask, id: newId, syncStatus: 'synced', lastSyncAt: ...}\<close>.\<close>

definition new_task :: "vault_task \<Rightarrow> int \<Rightarrow> string \<Rightarrow> task" where
  "new_task vaultTask newId stamp =
     \<lparr> title = title vaultTask,
       status = status vaultTask,
       sourceFile = sourceFile vaultTask,
       description = description vaultTask,
       priority = priority vaultTask,
       dependencies = dependencies vaultTask,
       obsidianTags = obsidianTags vaultTask,
       linkedNotes = linkedNotes vaultTask,
       details = details vaultTask,
       testStrategy = testStrategy vaultTask,
       lastModified = lastModified vaultTask,
       lastSyncAt = Some stamp,
       task_id = newId,
       syncStatus = Some ''synced'',
       subtasks = None \<rparr>"

text \<open>
  \<^verbatim>\<open>Math.max(...xs, 0)\<close> and, on a list that is not empty, \<^verbatim>\<open>Math.max(...xs)\<close>: the
  maximum of doubles is one of them, so nothing is rounded here.
\<close>

definition math_max0 :: "int list \<Rightarrow> int" where
  "math_max0 xs = fold max xs 0"

definition math_max :: "int list \<Rightarrow> int" where
  "math_max xs = fold max (tl xs) (hd xs)"

subsection \<open>\<^verbatim>\<open>syncWithObsidian\<close>, the direction from the vault\<close>

definition natural_key :: "vault_task \<Rightarrow> task \<Rightarrow> bool" where
  "natural_key vaultTask t = (sourceFile t = sourceFile vaultTask \<and> title t = title vaultTask)"

definition syncWithObsidian_fromStep ::
  "(string \<Rightarrow> int option) \<Rightarrow> (nat \<Rightarrow> string) \<Rightarrow> vault_task \<Rightarrow> sync_state \<Rightarrow> sync_state" where
  "syncWithObsidian_fromStep parse now vaultTask st =
     (case find_idx (natural_key vaultTask) (tasks st) of
        Some i \<Rightarrow>
          let existingTask = tasks st ! i in
          if hasConflict parse existingTask vaultTask
          then st\<lparr> tasks := (tasks st)[i := existingTask\<lparr> syncStatus := Some ''conflict'' \<rparr>],
                   results := (results st)\<lparr> conflicts := conflicts (results st) + 1 \<rparr> \<rparr>
          else st\<lparr> tasks := (tasks st)[i := object_assign existingTask vaultTask (now (ticks st))],
                   results := (results st)\<lparr> updated := updated (results st) + 1 \<rparr>,
                   ticks := ticks st + 1 \<rparr>
      | None \<Rightarrow>
          let newId = js_plus1 (math_max0 (map task_id (tasks st))) in
          st\<lparr> tasks := tasks st @ [new_task vaultTask newId (now (ticks st))],
              results := (results st)\<lparr> created := created (results st) + 1 \<rparr>,
              ticks := ticks st + 1 \<rparr>)"

text \<open>
  The branch \<^verbatim>\<open>direction === 'from-obsidian' || direction === 'bidirectional'\<close>: the loop
  over the extracted records, then the write of the store, which no condition guards.
\<close>

definition syncWithObsidian_from ::
  "(string \<Rightarrow> int option) \<Rightarrow> (nat \<Rightarrow> string) \<Rightarrow> string \<Rightarrow> vault_task list \<Rightarrow>
   task list \<Rightarrow> sync_results \<Rightarrow> world \<Rightarrow> sync_results \<times> world" where
  "syncWithObsidian_from parse now tag vaultTasks tasksData syncResults w =
     (let st = fold (syncWithObsidian_fromStep parse now) vaultTasks
                 \<lparr> tasks = tasksData, results = syncResults, ticks = 0 \<rparr>
      in (results st, writeJSON tag (tasks st) w))"

subsection \<open>\<^verbatim>\<open>syncTasksFromObsidian\<close>\<close>

text \<open>\<^verbatim>\<open>// Find existing task by title or sourceFile\<close>\<close>

definition title_or_file :: "vault_task \<Rightarrow> task \<Rightarrow> bool" where
  "title_or_file vaultTask t =
     (title t = title vaultTask \<or>
      (truthy (field (sourceFile t)) \<and> truthy (field (sourceFile vaultTask)) \<and>
       sourceFile t = sourceFile vaultTask))"

definition syncTasksFromObsidian_step ::
  "(string \<Rightarrow> int option) \<Rightarrow> (nat \<Rightarrow> string) \<Rightarrow> bool \<Rightarrow> vault_task \<Rightarrow> sync_state \<Rightarrow> sync_state" where
  "syncTasksFromObsidian_step parse now dryRun vaultTask st =
     (case find_idx (title_or_file vaultTask) (tasks st) of
        Some i \<Rightarrow>
          let existingTask = tasks st ! i in
          if hasConflict parse existingTask vaultTask
          then (if dryRun then st
                else st\<lparr> tasks := (tasks st)[i := existingTask\<lparr> syncStatus := Some ''conflict'' \<rparr>] \<rparr>)
               \<lparr> results := (results st)\<lparr> conflicts := conflicts (results st) + 1 \<rparr> \<rparr>
          else (if dryRun then st
                else st\<lparr> tasks := (tasks st)[i := object_assign existingTask vaultTask (now (ticks st))],
                         ticks := ticks st + 1 \<rparr>)
               \<lparr> results := (results st)\<lparr> updated := updated (results st) + 1 \<rparr> \<rparr>
      | None \<Rightarrow>
          (if dryRun then st
           else
             let newId = (if tasks st \<noteq> [] then js_plus1 (math_max (map task_id (tasks st))) else 1) in
             st\<lparr> tasks := tasks st @ [new_task vaultTask newId (now (ticks st))],
                 ticks := ticks st + 1 \<rparr>)
          \<lparr> results := (results st)\<lparr> created := created (results st) + 1 \<rparr> \<rparr>)"

text \<open>
  \<open>scan\<close> is what \<^verbatim>\<open>glob.sync\<close> and \<^verbatim>\<open>readFileSync\<close> give for the vault's files. A vault
  with no checkbox line returns at once; an absent partition starts from no tasks; the
  store is written when the run is not a dry run and something was created or updated.
\<close>

definition syncTasksFromObsidian ::
  "(string \<Rightarrow> int option) \<Rightarrow> (nat \<Rightarrow> string) \<Rightarrow> ((string \<rightharpoonup> string) \<Rightarrow> (string \<times> string option) list) \<Rightarrow>
   string \<Rightarrow> bool \<Rightarrow> world \<Rightarrow> sync_results \<times> world" where
  "syncTasksFromObsidian parse now scan tag dryRun w =
     (let vaultTasks = extractTasksFromVault (scan (files w)) in
      if vaultTasks = [] then (no_results, w)
      else
        let tasksData = (case readJSON w tag of None \<Rightarrow> [] | Some ts \<Rightarrow> ts);
            st = fold (syncTasksFromObsidian_step parse now dryRun) vaultTasks
                   \<lparr> tasks = tasksData, results = no_results, ticks = 0 \<rparr>
        in (results st,
            if \<not> dryRun \<and> (0 < created (results st) \<or> 0 < updated (results st))
            then writeJSON tag (tasks st) w else w))"

section \<open>Rendering and updating markdown\<close>

definition nl :: string where
  "nl = [CHR 0x0A]"

fun join :: "string \<Rightarrow> string list \<Rightarrow> string" where
  "join sep [] = []"
| "join sep [x] = x"
| "join sep (x # y # ys) = x @ sep @ join sep (y # ys)"

definition or_default :: "string \<Rightarrow> string \<Rightarrow> string" where
  "or_default s d = (if s \<noteq> [] then s else d)"

definition generateMarkdownForTask :: "task \<Rightarrow> string" where
  "generateMarkdownForTask t =
     (if obsidianTags t \<noteq> [] \<or> linkedNotes t \<noteq> [] \<or> task_id t \<noteq> 0
      then ''---'' @ nl @
           (if obsidianTags t \<noteq> []
            then ''tags: ['' @ join '', '' (map (\<lambda>tag. [CHR 0x22] @ tag @ [CHR 0x22]) (obsidianTags t)) @ '']'' @ nl
            else []) @
           ''task_id: '' @ number_toString (task_id t) @ nl @
           ''priority: '' @ or_default (priority t) ''medium'' @ nl @
           ''status: '' @ or_default (status t) ''pending'' @ nl @
           ''---'' @ nl @ nl
      else []) @
     ''# '' @ title t @ nl @ nl @
     ''- '' @ (if status t = ''done'' then ''[x]'' else ''[ ]'') @ '' '' @ title t @ nl @ nl @
     (if description t \<noteq> [] then ''## Description'' @ nl @ description t @ nl @ nl else []) @
     (if details t \<noteq> [] then ''## Details'' @ nl @ details t @ nl @ nl else []) @
     (if testStrategy t \<noteq> [] then ''## Test Strategy'' @ nl @ testStrategy t @ nl @ nl else []) @
     (if dependencies t \<noteq> []
      then ''## Dependencies'' @ nl @
           concat (map (\<lambda>depId. ''- Task '' @ number_toString depId @ nl) (dependencies t)) @ nl
      else []) @
     (if linkedNotes t \<noteq> []
      then ''## Related Notes'' @ nl @
           concat (map (\<lambda>link. ''- '' @ link @ nl) (linkedNotes t)) @ nl
      else [])"

text \<open>\<^verbatim>\<open>string.replace(/[.*+?^${}()|[\]\\]/g, '\\$&')\<close>\<close>

definition isRegexSpecial :: "char \<Rightarrow> bool" where
  "isRegexSpecial c = (c \<in> set ''.*+?^${}()|[]'' \<or> c = CHR 0x5C)"

definition escapeRegex :: "string \<Rightarrow> string" where
  "escapeRegex s = concat (map (\<lambda>c. if isRegexSpecial c then [CHR 0x5C, c] else [c]) s)"

text \<open>
  Matching the part of the pattern that \<open>escapeRegex\<close> produced against the start of an
  input: an escaped character or an ordinary character stands for itself. The result is
  the input left after the match.
\<close>

fun match_escaped :: "string \<Rightarrow> string \<Rightarrow> string option" where
  "match_escaped [] s = Some s"
| "match_escaped [p] s =
     (if p = CHR 0x5C then None
      else (case s of [] \<Rightarrow> None | c # cs \<Rightarrow> if c = p then Some cs else None))"
| "match_escaped (p # q # ps) s =
     (if p = CHR 0x5C
      then (case s of [] \<Rightarrow> None | c # cs \<Rightarrow> if c = q then match_escaped ps cs else None)
      else (case s of [] \<Rightarrow> None | c # cs \<Rightarrow> if c = p then match_escaped (q # ps) cs else None))"

text \<open>
  The pattern \<^verbatim>\<open>^- \[([ x])\] ${escapeRegex(task.title)}$\<close> tried at one position, which is
  known to be the start of a line: the captured checkbox character and the input after
  the match. \<^verbatim>\<open>$\<close> holds at the end of the input and before a line terminator.
\<close>

definition taskRegex_at :: "string \<Rightarrow> string \<Rightarrow> (char \<times> string) option" where
  "taskRegex_at ttl s =
     (if 6 \<le> length s \<and> take 3 s = ''- ['' \<and> (s ! 3 = CHR '' '' \<or> s ! 3 = CHR ''x'') \<and>
         take 2 (drop 4 s) = ''] ''
      then (case match_escaped (escapeRegex ttl) (drop 6 s) of
              None \<Rightarrow> None
            | Some post \<Rightarrow>
                if post = [] \<or> isLineTerminator (hd post) then Some (s ! 3, post) else None)
      else None)"

text \<open>
  The leftmost match (the pattern has no \<^verbatim>\<open>g\<close> flag): the text before it, the captured
  character and the text after it. \<open>bol\<close> says whether the position is at the start of
  a line; \<open>pre\<close> is the text already passed, reversed.
\<close>

fun taskRegex_exec :: "string \<Rightarrow> bool \<Rightarrow> string \<Rightarrow> string \<Rightarrow> (string \<times> char \<times> string) option" where
  "taskRegex_exec ttl bol pre [] = None"
| "taskRegex_exec ttl bol pre (c # cs) =
     (case (if bol then taskRegex_at ttl (c # cs) else None) of
        Some (g, post) \<Rightarrow> Some (rev pre, g, post)
      | None \<Rightarrow> taskRegex_exec ttl (isLineTerminator c) (c # pre) cs)"

definition isDigit :: "char \<Rightarrow> bool" where
  "isDigit c = (c \<in> set ''0123456789'')"

text \<open>
  \<^verbatim>\<open>GetSubstitution\<close> of ECMAScript for a match with one capture and no named groups: the
  replacement text with \<^verbatim>\<open>$$\<close>, \<^verbatim>\<open>$&\<close>, the text before and after the match, and
  \<^verbatim>\<open>$1\<close>, \<^verbatim>\<open>$01\<close> expanded. A two-digit reference beyond the one capture is read as a
  one-digit reference and a digit.
\<close>

fun getSubstitution :: "string \<Rightarrow> string \<Rightarrow> string \<Rightarrow> char \<Rightarrow> string \<Rightarrow> string" where
  "getSubstitution matched pre post g [] = []"
| "getSubstitution matched pre post g [c] = [c]"
| "getSubstitution matched pre post g (c # d # ds) =
     (if c \<noteq> CHR ''$'' then c # getSubstitution matched pre post g (d # ds)
      else if d = CHR ''$'' then CHR ''$'' # getSubstitution matched pre post g ds
      else if d = CHR ''&'' then matched @ getSubstitution matched pre post g ds
      else if d = CHR 0x60 then pre @ getSubstitution matched pre post g ds
      else if d = CHR 0x27 then post @ getSubstitution matched pre post g ds
      else if isDigit d then
        (case ds of
           e # es \<Rightarrow>
             if d = CHR ''0'' \<and> e = CHR ''1'' then g # getSubstitution matched pre post g es
             else if d = CHR ''0'' \<and> e = CHR ''0'' then ''$00'' @ getSubstitution matched pre post g es
             else if d = CHR ''1'' then g # getSubstitution matched pre post g ds
             else CHR ''$'' # d # getSubstitution matched pre post g ds
         | [] \<Rightarrow>
             if d = CHR ''1'' then [g] else [CHR ''$'', d])
      else CHR ''$'' # getSubstitution matched pre post g (d # ds))"

definition updateTaskInMarkdown :: "string \<Rightarrow> 'a vault_task_scheme \<Rightarrow> string" where
  "updateTaskInMarkdown content t =
     (let newCheckbox = (if status t = ''done'' then ''[x]'' else ''[ ]'');
          replacement = ''- '' @ newCheckbox @ '' '' @ title t
      in case taskRegex_exec (title t) True [] content of
           Some (pre, g, post) \<Rightarrow>
             pre @ getSubstitution (''- ['' @ [g] @ ''] '' @ title t) pre post g replacement @ post
         | None \<Rightarrow> content @ nl @ ''- '' @ newCheckbox @ '' '' @ title t @ nl)"

section \<open>Synchronisation to the vault\<close>

definition path_join :: "string \<Rightarrow> string \<Rightarrow> string" where
  "path_join a b = a @ ''/'' @ b"

text \<open>\<^verbatim>\<open>fs.writeFileSync\<close>: throws on a path that cannot be written.\<close>

definition writeFileSync :: "string \<Rightarrow> string \<Rightarrow> world \<Rightarrow> string + world" where
  "writeFileSync p content w =
     (if p \<in> unwritable w then Inl (''EACCES: permission denied, open '' @ p)
      else Inr (w\<lparr> files := (files w)(p \<mapsto> content), journal := journal w @ [WriteFile p content] \<rparr>))"

text \<open>
  Directories are not part of the model: creating the missing parent directory of a file
  changes nothing here.
\<close>

definition updateMarkdownFile :: "string \<Rightarrow> task \<Rightarrow> world \<Rightarrow> string + world" where
  "updateMarkdownFile vaultPath t w =
     (case sourceFile t of
        None \<Rightarrow> Inl ''The path argument must be of type string. Received undefined''
      | Some f \<Rightarrow>
          let filePath = path_join vaultPath f in
          (case files w filePath of
             None \<Rightarrow> writeFileSync filePath (generateMarkdownForTask t) w
           | Some content \<Rightarrow> writeFileSync filePath (updateTaskInMarkdown content t) w))"

subsection \<open>\<^verbatim>\<open>syncWithObsidian\<close>, the direction to the vault\<close>

definition syncWithObsidian_toStep ::
  "string \<Rightarrow> task \<Rightarrow> sync_results \<times> world \<Rightarrow> sync_results \<times> world" where
  "syncWithObsidian_toStep vaultPath t rw =
     (let (syncResults, w) = rw in
      if truthy (field (sourceFile t))
      then (case updateMarkdownFile vaultPath t w of
              Inr w' \<Rightarrow> (syncResults\<lparr> updated := updated syncResults + 1 \<rparr>, w')
            | Inl msg \<Rightarrow>
                (syncResults\<lparr> errors := errors syncResults @ [(JNum (task_id t), msg)] \<rparr>, w))
      else (syncResults, w))"

definition syncWithObsidian_to ::
  "string \<Rightarrow> task list \<Rightarrow> sync_results \<times> world \<Rightarrow> sync_results \<times> world" where
  "syncWithObsidian_to vaultPath ts rw = fold (syncWithObsidian_toStep vaultPath) ts rw"

definition syncWithObsidian ::
  "(string \<Rightarrow> int option) \<Rightarrow> (nat \<Rightarrow> string) \<Rightarrow> ((string \<rightharpoonup> string) \<Rightarrow> (string \<times> string option) list) \<Rightarrow>
   string \<Rightarrow> string \<Rightarrow> string \<Rightarrow> world \<Rightarrow> string + (sync_results \<times> world)" where
  "syncWithObsidian parse now scan vaultPath tag direction w =
     (case readJSON w tag of
        None \<Rightarrow> Inl ''No tasks data found''
      | Some tasksData \<Rightarrow>
          let rw1 = (if direction = ''to-obsidian'' \<or> direction = ''bidirectional''
                     then syncWithObsidian_to vaultPath tasksData (no_results, w)
                     else (no_results, w));
              rw2 = (if direction = ''from-obsidian'' \<or> direction = ''bidirectional''
                     then syncWithObsidian_from parse now tag
                            (extractTasksFromVault (scan (files (snd rw1)))) tasksData (fst rw1) (snd rw1)
                     else rw1)
          in Inr rw2)"

subsection \<open>\<^verbatim>\<open>syncTasksToObsidian\<close>\<close>

definition padStart3 :: "string \<Rightarrow> string" where
  "padStart3 s = replicate (3 - length s) CHR ''0'' @ s"

definition isAlnum :: "char \<Rightarrow> bool" where
  "isAlnum c =
     (let n = (of_char c :: nat)
      in (48 \<le> n \<and> n \<le> 57) \<or> (65 \<le> n \<and> n \<le> 90) \<or> (97 \<le> n \<and> n \<le> 122))"

text \<open>
  \<^verbatim>\<open>path.join(vaultPath, 'Tasks', `task-${id padded}-${title, dashed and lowered}.md`)\<close>: the
  file of a task is named after its id and its title; \<open>sourceFile\<close> is not read.
\<close>

definition markdownPath :: "string \<Rightarrow> task \<Rightarrow> string" where
  "markdownPath vaultPath t =
     path_join (path_join vaultPath ''Tasks'')
       (''task-'' @ padStart3 (number_toString (task_id t)) @ ''-'' @
        toLowerCase (map (\<lambda>c. if isAlnum c then c else CHR ''-'') (title t)) @ ''.md'')"

definition syncTasksToObsidian_step ::
  "string \<Rightarrow> bool \<Rightarrow> task \<Rightarrow> sync_results \<times> world \<Rightarrow> sync_results \<times> world" where
  "syncTasksToObsidian_step vaultPath dryRun t rw =
     (let (res, w) = rw in
      if dryRun then (res, w)
      else
        let content = generateMarkdownForTask t;
            existed = (files w (markdownPath vaultPath t) \<noteq> None)
        in (case writeFileSync (markdownPath vaultPath t) content w of
              Inl msg \<Rightarrow> (res\<lparr> errors := errors res @ [(JNum (task_id t), msg)] \<rparr>, w)
            | Inr w' \<Rightarrow>
                if existed then (res\<lparr> updated := updated res + 1 \<rparr>, w')
                else (res\<lparr> created := created res + 1 \<rparr>, w')))"

definition syncTasksToObsidian ::
  "string \<Rightarrow> string \<Rightarrow> bool \<Rightarrow> world \<Rightarrow> string + (sync_results \<times> world)" where
  "syncTasksToObsidian vaultPath tag dryRun w =
     (case readJSON w tag of
        None \<Rightarrow> Inl ''No tasks data found''
      | Some tasksData \<Rightarrow> Inr (fold (syncTasksToObsidian_step vaultPath dryRun) tasksData (no_results, w)))"

section \<open>Renumbering the tasks a text generation returns\<close>

text \<open>
  The part of \<^verbatim>\<open>parseObsidianNotes\<close> after the generation service has answered. A draft
  is a task with a provisional id and dependencies on provisional ids.
\<close>

definition nextId_of :: "task list \<Rightarrow> int" where
  "nextId_of existingTasks =
     (if existingTasks \<noteq> [] then js_plus1 (math_max (map task_id existingTasks)) else 1)"

text \<open>
  The object built for a draft: its own fields, the new id and the defaults. The fields
  whose default is the empty string or the empty list keep their value; \<^verbatim>\<open>vaultLocation\<close>
  is not a field of the model.
\<close>

definition processed_task :: "task \<Rightarrow> int \<Rightarrow> string \<Rightarrow> task" where
  "processed_task t newId stamp =
     t\<lparr> task_id := newId,
        status := or_default (status t) ''pending'',
        priority := or_default (priority t) ''medium'',
        subtasks := Some [],
        sourceFile := Some (case sourceFile t of None \<Rightarrow> [] | Some f \<Rightarrow> f),
        syncStatus := Some ''pending'',
        lastSyncAt := Some stamp \<rparr>"

text \<open>
  \<^verbatim>\<open>generatedData.tasks.map(...)\<close> with \<^verbatim>\<open>currentId++\<close> and \<^verbatim>\<open>taskMap.set(task.id, newId)\<close>:
  the processed tasks and the map from provisional to new ids.
\<close>

fun process_drafts ::
  "(nat \<Rightarrow> string) \<Rightarrow> nat \<Rightarrow> int \<Rightarrow> (int \<rightharpoonup> int) \<Rightarrow> task list \<Rightarrow> task list \<times> (int \<rightharpoonup> int)" where
  "process_drafts now k currentId taskMap [] = ([], taskMap)"
| "process_drafts now k currentId taskMap (t # ts) =
     (let newId = currentId;
          (rest, taskMap') =
             process_drafts now (k + 1) (js_plus1 currentId) (taskMap(task_id t \<mapsto> newId)) ts
      in (processed_task t newId (now k) # rest, taskMap'))"

definition has_id :: "task list \<Rightarrow> int \<Rightarrow> bool" where
  "has_id ts i = list_ex (\<lambda>t. task_id t = i) ts"

text \<open>
  \<^verbatim>\<open>task.dependencies.map((depId) => taskMap.get(depId)).filter(...)\<close>: a dependency stays
  when its provisional id is in the map, its new id is lower than the task's, and a task
  with that id exists among the old or the new tasks.
\<close>

definition remap_dependencies ::
  "(int \<rightharpoonup> int) \<Rightarrow> task list \<Rightarrow> task list \<Rightarrow> task \<Rightarrow> task" where
  "remap_dependencies taskMap existingTasks processedNewTasks t =
     t\<lparr> dependencies :=
          map the
            (filter (\<lambda>newDepId.
                newDepId \<noteq> None \<and>
                the newDepId < task_id t \<and>
                (has_id existingTasks (the newDepId) \<or> has_id processedNewTasks (the newDepId)))
              (map taskMap (dependencies t))) \<rparr>"

definition remapped_new_tasks :: "(nat \<Rightarrow> string) \<Rightarrow> task list \<Rightarrow> task list \<Rightarrow> task list" where
  "remapped_new_tasks now existingTasks drafts =
     (let (processedNewTasks, taskMap) = process_drafts now 0 (nextId_of existingTasks) Map.empty drafts
      in map (remap_dependencies taskMap existingTasks processedNewTasks) processedNewTasks)"

definition finalTasks :: "(nat \<Rightarrow> string) \<Rightarrow> bool \<Rightarrow> task list \<Rightarrow> task list \<Rightarrow> task list" where
  "finalTasks now appendMode existingTasks drafts =
     (if appendMode then existingTasks @ remapped_new_tasks now existingTasks drafts
      else remapped_new_tasks now existingTasks drafts)"

section \<open>Resolving a cross-reference token\<close>

definition title_is :: "string \<Rightarrow> string \<Rightarrow> bool" where
  "title_is linkText ttl = (ttl \<noteq> [] \<and> toLowerCase ttl = toLowerCase linkText)"

definition title_has :: "string \<Rightarrow> string \<Rightarrow> bool" where
  "title_has linkText ttl = (ttl \<noteq> [] \<and> str_includes (toLowerCase ttl) (toLowerCase linkText))"

definition dotted :: "task \<Rightarrow> subtask \<Rightarrow> js_value" where
  "dotted parentTask st = JStr (number_toString (task_id parentTask) @ ''.'' @ number_toString (sub_id st))"

text \<open>The loop over the parents, returning at the first subtask whose title passes.\<close>

fun find_subtask :: "(string \<Rightarrow> bool) \<Rightarrow> task list \<Rightarrow> js_value option" where
  "find_subtask P [] = None"
| "find_subtask P (parentTask # rest) =
     (case subtasks parentTask of
        None \<Rightarrow> find_subtask P rest
      | Some sts \<Rightarrow>
          (case find (\<lambda>st. P (sub_title st)) sts of
             Some st \<Rightarrow> Some (dotted parentTask st)
           | None \<Rightarrow> find_subtask P rest))"

text \<open>\<^verbatim>\<open>resolveObsidianLink(identifier, tasks, 'to-id')\<close>\<close>

definition resolveObsidianLink_toId :: "js_value \<Rightarrow> task list \<Rightarrow> js_value" where
  "resolveObsidianLink_toId identifier ts =
     (case identifier of
        JStr s \<Rightarrow>
          if startsWith s ''[['' \<and> endsWith s '']]'' then
            let linkText = trim (slice_2_m2 s) in
            if linkText = [] then JNull
            else
              (case find (\<lambda>t. title_is linkText (title t)) ts of
                 Some t \<Rightarrow> JNum (task_id t)
               | None \<Rightarrow>
                   (case find_subtask (title_is linkText) ts of
                      Some r \<Rightarrow> r
                    | None \<Rightarrow>
                        (case find (\<lambda>t. title_has linkText (title t)) ts of
                           Some t \<Rightarrow> JNum (task_id t)
                         | None \<Rightarrow>
                             (case find_subtask (title_has linkText) ts of
                                Some r \<Rightarrow> r
                              | None \<Rightarrow> identifier))))
          else identifier
      | _ \<Rightarrow> identifier)"

text \<open>
  The resolution in the words of the specification. A title matches a text exactly, case
  apart, when the two have the same length and agree character by character up to case;
  it matches as a substring when some stretch of the title matches the text exactly. The
  candidates are the matches of the four attempts, in the order of the attempts and
  within an attempt in iteration order; the first one is the answer.
\<close>

definition exact_ci :: "string \<Rightarrow> string \<Rightarrow> bool" where
  "exact_ci ttl inner = list_all2 (\<lambda>c d. toLowerChar c = toLowerChar d) ttl inner"

definition substring_ci :: "string \<Rightarrow> string \<Rightarrow> bool" where
  "substring_ci ttl inner =
     list_ex (\<lambda>i. exact_ci (take (length inner) (drop i ttl)) inner) [0..<Suc (length ttl)]"

definition subtasks_of :: "task \<Rightarrow> subtask list" where
  "subtasks_of t = (case subtasks t of None \<Rightarrow> [] | Some sts \<Rightarrow> sts)"

definition candidates :: "string \<Rightarrow> task list \<Rightarrow> js_value list" where
  "candidates inner ts =
     [JNum (task_id t). t \<leftarrow> ts, exact_ci (title t) inner] @
     [dotted p st. p \<leftarrow> ts, st \<leftarrow> subtasks_of p, exact_ci (sub_title st) inner] @
     [JNum (task_id t). t \<leftarrow> ts, substring_ci (title t) inner] @
     [dotted p st. p \<leftarrow> ts, st \<leftarrow> subtasks_of p, substring_ci (sub_title st) inner]"

definition resolveToId_spec :: "string \<Rightarrow> task list \<Rightarrow> js_value" where
  "resolveToId_spec token ts =
     (let inner = trim (slice_2_m2 token) in
      if inner = [] then JNull
      else (case candidates inner ts of [] \<Rightarrow> JStr token | r # _ \<Rightarrow> r))"

section \<open>Identifier formatting\<close>

definition formatTaskId :: "js_value \<Rightarrow> js_value" where
  "formatTaskId ident =
     (case ident of
        JStr s \<Rightarrow>
          if str_includes s ''.'' then ident
          else if startsWith s ''[['' \<and> endsWith s '']]'' then ident
          else ident
      | JNum n \<Rightarrow> JStr (number_toString n)
      | _ \<Rightarrow> ident)"

section \<open>Notions used in the statements\<close>

text \<open>The partition of a tag in the store, empty when the tag has none.\<close>

definition partition_of :: "world \<Rightarrow> string \<Rightarrow> task list" where
  "partition_of w tag = (case store w tag of None \<Rightarrow> [] | Some ts \<Rightarrow> ts)"




text \<open>A timestamp property that does not hold a time before the epoch.\<close>

definition not_before_epoch :: "(string \<Rightarrow> int option) \<Rightarrow> string option \<Rightarrow> bool" where
  "not_before_epoch parse f =
     (case f of None \<Rightarrow> True
      | Some s \<Rightarrow> (case parse s of None \<Rightarrow> True | Some ms \<Rightarrow> 0 \<le> ms))"

text \<open>
  What a pass driven by the extractor keeps: no task is stamped before the epoch, the
  conflict counter stands at \<open>c0\<close>, and a task marked as a conflict is a task of \<open>T0\<close>.
\<close>

definition quiet_inv ::
  "(string \<Rightarrow> int option) \<Rightarrow> task list \<Rightarrow> nat \<Rightarrow> sync_state \<Rightarrow> bool" where
  "quiet_inv parse T0 c0 st =
     (list_all (\<lambda>t. not_before_epoch parse (lastSyncAt t)) (tasks st) \<and>
      conflicts (results st) = c0 \<and>
      list_all (\<lambda>t. syncStatus t = Some ''conflict'' \<longrightarrow> t \<in> set T0) (tasks st))"

text \<open>
  A checkbox line for a title; whether a position after the text \<open>a\<close> is at the start of
  a line; and that the pattern of a title matches at no position inside \<open>a\<close> when \<open>a\<close>
  is followed by \<open>s\<close>.
\<close>

definition checkbox_line :: "char \<Rightarrow> string \<Rightarrow> string" where
  "checkbox_line g ttl = ''- ['' @ [g] @ ''] '' @ ttl"

definition bol_after :: "bool \<Rightarrow> string \<Rightarrow> bool" where
  "bol_after bol a = (if a = [] then bol else isLineTerminator (last a))"

fun unmatched :: "string \<Rightarrow> bool \<Rightarrow> string \<Rightarrow> string \<Rightarrow> bool" where
  "unmatched ttl bol [] s = True"
| "unmatched ttl bol (c # a) s =
     ((bol \<longrightarrow> taskRegex_at ttl (c # a @ s) = None) \<and> unmatched ttl (isLineTerminator c) a s)"


section \<open>Example data\<close>

definition example_parse :: "string \<Rightarrow> int option" where
  "example_parse s =
     (if s = ''2023-01-01T00:00:00.000Z'' then Some 1672531200000
      else if s = ''2024-06-01T00:00:00.000Z'' then Some 1717200000000
      else None)"

definition example_now :: "nat \<Rightarrow> string" where
  "example_now k = ''2024-06-01T00:00:00.000Z''"

definition example_record :: "string \<Rightarrow> string \<Rightarrow> string \<Rightarrow> vault_task" where
  "example_record file ttl st =
     \<lparr> title = ttl, status = st, sourceFile = Some file, description = ttl,
       priority = ''medium'', dependencies = [], obsidianTags = [], linkedNotes = [],
       details = [], testStrategy = [], lastModified = None, lastSyncAt = None \<rparr>"

definition example_task :: "int \<Rightarrow> string \<Rightarrow> string \<Rightarrow> string option \<Rightarrow> string option \<Rightarrow> task" where
  "example_task i ttl st file synced =
     \<lparr> title = ttl, status = st, sourceFile = file, description = ttl,
       priority = ''medium'', dependencies = [], obsidianTags = [], linkedNotes = [],
       details = [], testStrategy = [], lastModified = None, lastSyncAt = synced,
       task_id = i, syncStatus = None, subtasks = None \<rparr>"

definition example_state :: sync_state where
  "example_state =
     \<lparr> tasks = [example_task 1 ''Setup'' ''pending'' (Some ''a.md'') None],
       results = no_results, ticks = 0 \<rparr>"

definition example_world :: world where
  "example_world =
     \<lparr> store = [''master'' \<mapsto> [example_task 1 ''Setup'' ''pending'' (Some ''setup.md'') None]],
       files = Map.empty, unwritable = {}, journal = [] \<rparr>"


text \<open>A vault of one readable note with two checkbox lines, and a file that cannot be read.\<close>

definition example_vault :: "(string \<rightharpoonup> string) \<Rightarrow> (string \<times> string option) list" where
  "example_vault fs =
     [(''note.md'', Some (''- [ ] Write docs'' @ nl @ ''- [x] Ship it'')), (''broken.md'', None)]"

definition example_partition :: "task list" where
  "example_partition =
     [example_task 7 ''Auth System'' ''pending'' None None,
      (example_task 8 ''API'' ''pending'' None None)
        \<lparr> subtasks := Some [\<lparr> sub_id = 1, sub_title = ''Routes'' \<rparr>,
                             \<lparr> sub_id = 2, sub_title = ''Auth system tests'' \<rparr>] \<rparr>]"

text \<open>
  A partition in which, for some text, a later attempt of the resolution has a match that
  comes earlier in the partition than the match of an earlier attempt.
\<close>

definition example_titles :: "task list" where
  "example_titles =
     [(example_task 1 ''Auth System Extended'' ''pending'' None None)
        \<lparr> subtasks := Some [\<lparr> sub_id = 1, sub_title = ''Login flow extended'' \<rparr>] \<rparr>,
      example_task 2 ''Auth System'' ''pending'' None None,
      (example_task 3 ''API'' ''pending'' None None)
        \<lparr> subtasks := Some [\<lparr> sub_id = 1, sub_title = ''Routes'' \<rparr>,
                             \<lparr> sub_id = 2, sub_title = ''Login Flow'' \<rparr>] \<rparr>,
      example_task 4 ''Routes table'' ''pending'' None None]"

text \<open>
  A batch of three drafts over a partition of two tasks: the second draft depends on the
  first and on a provisional id 20 that no draft has; the third depends on itself and on
  the second.
\<close>

definition example_existing :: "task list" where
  "example_existing =
     [example_task 1 ''Setup'' ''done'' None None, example_task 2 ''Docs'' ''pending'' None None]"

definition example_drafts :: "task list" where
  "example_drafts =
     [example_task 5 ''Parser'' ''pending'' None None,
      (example_task 10 ''Printer'' ''pending'' None None)\<lparr> dependencies := [5, 20] \<rparr>,
      (example_task 7 ''Tests'' [] None None)\<lparr> dependencies := [7, 10] \<rparr>]"

section \<open>Properties\<close>

lemma present_truthy: "truthy (field f) = present f"
  by (cases f) (simp_all add: field_def present_def)

lemma date_gt_newer: "date_gt a b = strictly_newer a b"
  by (cases a; cases b) (simp_all add: date_gt_def strictly_newer_def)

lemma evidence_eq:
  "new_Date parse (js_or (js_or (field (lastModified r)) (field (lastSyncAt r))) (JNum 0))
     = effective_evidence parse r"
  by (cases "lastModified r"; cases "lastSyncAt r")
     (simp_all add: js_or_def field_def new_Date_def effective_evidence_def present_def)

lemma synctime_eq:
  "present f \<Longrightarrow> new_Date parse (field f) = parse (the f)"
  by (cases f) (simp_all add: field_def new_Date_def present_def)

text \<open>
  C2. The conflict predicate of the source holds exactly when the canonical record has a
  previous \<open>lastSyncAt\<close>, the incoming record's effective modification evidence (its
  \<open>lastModified\<close>, else its \<open>lastSyncAt\<close>, else the epoch) is strictly newer than that
  timestamp, and title, status or description differ; a canonical record with no prior
  \<open>lastSyncAt\<close> never conflicts.
\<close>

theorem hasConflict_iff_spec:
  "hasConflict parse a b = spec_conflict parse a b \<and>
   (lastSyncAt a = None \<longrightarrow> \<not> hasConflict parse a b)"
proof -
  have main: "hasConflict parse a b = spec_conflict parse a b"
  proof (cases "present (lastSyncAt a)")
    case True
    then show ?thesis
      unfolding hasConflict_def spec_conflict_def Let_def
      by (simp add: present_truthy evidence_eq synctime_eq date_gt_newer)
  next
    case False
    then show ?thesis
      by (simp add: hasConflict_def spec_conflict_def present_truthy)
  qed
  have "lastSyncAt a = None \<Longrightarrow> \<not> hasConflict parse a b"
    by (simp add: hasConflict_def field_def)
  with main show ?thesis by blast
qed

text \<open>C2 at the second example scenario of the specification and at a later edit.\<close>

theorem hasConflict_iff_spec_witness:
  "hasConflict example_parse
     (example_task 1 ''Setup'' ''pending'' (Some ''setup.md'') (Some ''2023-01-01T00:00:00.000Z''))
     ((example_record ''setup.md'' ''Setup'' ''done'')\<lparr> lastModified := Some ''2024-06-01T00:00:00.000Z'' \<rparr>) \<and>
   \<not> hasConflict example_parse
     (example_task 1 ''Setup'' ''pending'' (Some ''setup.md'') None)
     (example_record ''setup.md'' ''Setup'' ''done'')"
  using hasConflict_iff_spec [of example_parse
      "example_task 1 ''Setup'' ''pending'' (Some ''setup.md'') (Some ''2023-01-01T00:00:00.000Z'')"
      "(example_record ''setup.md'' ''Setup'' ''done'')\<lparr> lastModified := Some ''2024-06-01T00:00:00.000Z'' \<rparr>"]
    hasConflict_iff_spec [of example_parse
      "example_task 1 ''Setup'' ''pending'' (Some ''setup.md'') None"
      "example_record ''setup.md'' ''Setup'' ''done''"]
  by (simp add: spec_conflict_def present_def effective_evidence_def strictly_newer_def
      example_task_def example_record_def example_parse_def)

text \<open>
  C8. Formatting an identifier twice gives what formatting it once gives, for a number,
  a dotted subtask id, a bracketed token and any other value.
\<close>

theorem formatTaskId_idempotent:
  "formatTaskId (formatTaskId x) = formatTaskId x"
  by (cases x) (simp_all add: formatTaskId_def)

theorem formatTaskId_idempotent_witness:
  "formatTaskId (formatTaskId (JNum 7)) = JStr ''7'' \<and>
   formatTaskId (formatTaskId (JStr ''[[Auth System]]'')) = JStr ''[[Auth System]]'' \<and>
   formatTaskId (formatTaskId (JStr ''3.2'')) = JStr ''3.2''"
  using formatTaskId_idempotent [of "JNum 7"] formatTaskId_idempotent [of "JStr ''[[Auth System]]''"]
    formatTaskId_idempotent [of "JStr ''3.2''"]
  by (simp add: formatTaskId_def number_toString_def nat_toString.simps digit_char_def)

subsection \<open>Looking a record up\<close>

lemma find_idx_None: "(find_idx P xs = None) = (\<not> (\<exists>x\<in>set xs. P x))"
  by (induction xs) auto

lemma find_idx_Some: "find_idx P xs = Some i \<Longrightarrow> i < length xs \<and> P (xs ! i)"
  by (induction xs arbitrary: i) (auto split: if_splits)

lemma no_results_simps [simp]:
  "created no_results = 0" "updated no_results = 0" "conflicts no_results = 0"
  "errors no_results = []"
  by (simp_all add: no_results_def)

lemma fromStep_created:
  "created (results (syncWithObsidian_fromStep parse now v st)) =
     (if find_idx (natural_key v) (tasks st) = None
      then created (results st) + 1 else created (results st))"
  by (auto simp: syncWithObsidian_fromStep_def Let_def split: option.splits)

lemma step_created:
  "created (results (syncTasksFromObsidian_step parse now dryRun v st)) =
     (if find_idx (title_or_file v) (tasks st) = None
      then created (results st) + 1 else created (results st))"
  by (auto simp: syncTasksFromObsidian_step_def Let_def split: option.splits)

lemma find_idx_first:
  "i < length xs \<Longrightarrow> P (xs ! i) \<Longrightarrow> \<forall>j<i. \<not> P (xs ! j) \<Longrightarrow> find_idx P xs = Some i"
proof (induction xs arbitrary: i)
  case Nil
  then show ?case by simp
next
  case (Cons x xs)
  show ?case
  proof (cases i)
    case 0
    with Cons.prems show ?thesis by simp
  next
    case (Suc k)
    with Cons.prems have "\<not> P ((x # xs) ! 0)" by blast
    then have x: "\<not> P x" by simp
    have "\<forall>j<k. \<not> P (xs ! j)"
    proof (intro allI impI)
      fix j assume "j < k"
      then have "Suc j < i" using Suc by simp
      with Cons.prems(3) have "\<not> P ((x # xs) ! Suc j)" by blast
      then show "\<not> P (xs ! j)" by simp
    qed
    moreover have "k < length xs" "P (xs ! k)" using Cons.prems Suc by simp_all
    ultimately have "find_idx P xs = Some k" by (intro Cons.IH)
    with x Suc show ?thesis by simp
  qed
qed

lemma fromStep_unmatched:
  assumes "find_idx (natural_key v) (tasks st) = None"
  shows "tasks (syncWithObsidian_fromStep parse now v st)
           = tasks st @ [new_task v (js_plus1 (math_max0 (map task_id (tasks st)))) (now (ticks st))]"
    and "created (results (syncWithObsidian_fromStep parse now v st)) = created (results st) + 1"
    and "updated (results (syncWithObsidian_fromStep parse now v st)) = updated (results st)"
    and "conflicts (results (syncWithObsidian_fromStep parse now v st)) = conflicts (results st)"
  using assms by (simp_all add: syncWithObsidian_fromStep_def Let_def)

lemma fromStep_matched:
  assumes "find_idx (natural_key v) (tasks st) = Some i"
  shows "tasks (syncWithObsidian_fromStep parse now v st)
           = (tasks st)[i := (if hasConflict parse (tasks st ! i) v
                              then (tasks st ! i)\<lparr> syncStatus := Some ''conflict'' \<rparr>
                              else object_assign (tasks st ! i) v (now (ticks st)))]"
    and "created (results (syncWithObsidian_fromStep parse now v st)) = created (results st)"
    and "updated (results (syncWithObsidian_fromStep parse now v st))
           = (if hasConflict parse (tasks st ! i) v then updated (results st)
              else updated (results st) + 1)"
    and "conflicts (results (syncWithObsidian_fromStep parse now v st))
           = (if hasConflict parse (tasks st ! i) v then conflicts (results st) + 1
              else conflicts (results st))"
  using assms by (simp_all add: syncWithObsidian_fromStep_def Let_def)

lemma step_unmatched:
  assumes "find_idx (title_or_file v) (tasks st) = None"
  shows "tasks (syncTasksFromObsidian_step parse now dryRun v st)
           = (if dryRun then tasks st
              else tasks st @ [new_task v
                     (if tasks st \<noteq> [] then js_plus1 (math_max (map task_id (tasks st))) else 1)
                     (now (ticks st))])"
    and "created (results (syncTasksFromObsidian_step parse now dryRun v st))
           = created (results st) + 1"
    and "updated (results (syncTasksFromObsidian_step parse now dryRun v st)) = updated (results st)"
    and "conflicts (results (syncTasksFromObsidian_step parse now dryRun v st))
           = conflicts (results st)"
  using assms by (simp_all add: syncTasksFromObsidian_step_def Let_def)

lemma step_matched:
  assumes "find_idx (title_or_file v) (tasks st) = Some i"
  shows "tasks (syncTasksFromObsidian_step parse now dryRun v st)
           = (if dryRun then tasks st
              else (tasks st)[i := (if hasConflict parse (tasks st ! i) v
                                    then (tasks st ! i)\<lparr> syncStatus := Some ''conflict'' \<rparr>
                                    else object_assign (tasks st ! i) v (now (ticks st)))])"
    and "created (results (syncTasksFromObsidian_step parse now dryRun v st)) = created (results st)"
    and "updated (results (syncTasksFromObsidian_step parse now dryRun v st))
           = (if hasConflict parse (tasks st ! i) v then updated (results st)
              else updated (results st) + 1)"
    and "conflicts (results (syncTasksFromObsidian_step parse now dryRun v st))
           = (if hasConflict parse (tasks st ! i) v then conflicts (results st) + 1
              else conflicts (results st))"
  using assms by (simp_all add: syncTasksFromObsidian_step_def Let_def)

lemma natural_key_both:
  "natural_key v = (\<lambda>t. sourceFile t = sourceFile v \<and> title t = title v)"
  by (rule ext) (simp add: natural_key_def)

lemma title_or_file_either:
  "title_or_file v
     = (\<lambda>t. title t = title v \<or>
            (present (sourceFile t) \<and> present (sourceFile v) \<and> sourceFile t = sourceFile v))"
  by (rule ext) (simp add: title_or_file_def present_truthy)

text \<open>
  C1, as the code has it. In the from-vault branch of \<^verbatim>\<open>syncWithObsidian\<close> a record is
  found when some task has both its \<open>sourceFile\<close> and its \<open>title\<close>; in
  \<^verbatim>\<open>syncTasksFromObsidian\<close> it is found when some task has its title or shares a non-empty
  \<open>sourceFile\<close> with it: agreeing on one of the two fields is enough there. In both, a
  record is counted as created exactly when it is not found, and then a new task with the
  next id is appended and the other counters stand; a record that is found is matched to
  the first task that passes the test, which on a conflict is marked and counted as a
  conflict, and otherwise takes the fields of the record and is counted as updated. In a
  dry run of \<^verbatim>\<open>syncTasksFromObsidian\<close> the counters move in the same way and the tasks stay
  as they are.
\<close>

theorem matching_keys:
  "(let found = (\<lambda>t. sourceFile t = sourceFile v \<and> title t = title v);
        st' = syncWithObsidian_fromStep parse now v st
    in ((created (results st') = created (results st) + 1) = (\<not> (\<exists>t\<in>set (tasks st). found t))) \<and>
       (\<not> (\<exists>t\<in>set (tasks st). found t) \<longrightarrow>
          tasks st' = tasks st @
            [new_task v (js_plus1 (math_max0 (map task_id (tasks st)))) (now (ticks st))] \<and>
          updated (results st') = updated (results st) \<and>
          conflicts (results st') = conflicts (results st)) \<and>
       (\<forall>i<length (tasks st). found (tasks st ! i) \<and> (\<forall>j<i. \<not> found (tasks st ! j)) \<longrightarrow>
          created (results st') = created (results st) \<and>
          (if hasConflict parse (tasks st ! i) v
           then tasks st' = (tasks st)[i := (tasks st ! i)\<lparr> syncStatus := Some ''conflict'' \<rparr>] \<and>
                conflicts (results st') = conflicts (results st) + 1 \<and>
                updated (results st') = updated (results st)
           else tasks st' = (tasks st)[i := object_assign (tasks st ! i) v (now (ticks st))] \<and>
                updated (results st') = updated (results st) + 1 \<and>
                conflicts (results st') = conflicts (results st)))) \<and>
   (let found = (\<lambda>t. title t = title v \<or>
                    (present (sourceFile t) \<and> present (sourceFile v) \<and>
                     sourceFile t = sourceFile v));
        st' = syncTasksFromObsidian_step parse now dryRun v st
    in ((created (results st') = created (results st) + 1) = (\<not> (\<exists>t\<in>set (tasks st). found t))) \<and>
       (\<not> (\<exists>t\<in>set (tasks st). found t) \<longrightarrow>
          tasks st' =
            (if dryRun then tasks st
             else tasks st @
               [new_task v
                  (if tasks st \<noteq> [] then js_plus1 (math_max (map task_id (tasks st))) else 1)
                  (now (ticks st))]) \<and>
          updated (results st') = updated (results st) \<and>
          conflicts (results st') = conflicts (results st)) \<and>
       (\<forall>i<length (tasks st). found (tasks st ! i) \<and> (\<forall>j<i. \<not> found (tasks st ! j)) \<longrightarrow>
          created (results st') = created (results st) \<and>
          (if hasConflict parse (tasks st ! i) v
           then tasks st' =
                  (if dryRun then tasks st
                   else (tasks st)[i := (tasks st ! i)\<lparr> syncStatus := Some ''conflict'' \<rparr>]) \<and>
                conflicts (results st') = conflicts (results st) + 1 \<and>
                updated (results st') = updated (results st)
           else tasks st' =
                  (if dryRun then tasks st
                   else (tasks st)[i := object_assign (tasks st ! i) v (now (ticks st))]) \<and>
                updated (results st') = updated (results st) + 1 \<and>
                conflicts (results st') = conflicts (results st))))"
proof -
  let ?P = "\<lambda>t. sourceFile t = sourceFile v \<and> title t = title v"
  let ?Q = "\<lambda>t. title t = title v \<or>
                 (present (sourceFile t) \<and> present (sourceFile v) \<and> sourceFile t = sourceFile v)"
  let ?a = "syncWithObsidian_fromStep parse now v st"
  let ?b = "syncTasksFromObsidian_step parse now dryRun v st"
  have a1: "(created (results ?a) = created (results st) + 1) = (\<not> (\<exists>t\<in>set (tasks st). ?P t))"
    by (simp add: fromStep_created find_idx_None natural_key_def)
  have b1: "(created (results ?b) = created (results st) + 1) = (\<not> (\<exists>t\<in>set (tasks st). ?Q t))"
    by (simp add: step_created find_idx_None title_or_file_def present_truthy)
  have a2: "tasks ?a = tasks st @
              [new_task v (js_plus1 (math_max0 (map task_id (tasks st)))) (now (ticks st))] \<and>
            updated (results ?a) = updated (results st) \<and>
            conflicts (results ?a) = conflicts (results st)"
    if "\<not> (\<exists>t\<in>set (tasks st). ?P t)"
  proof -
    from that have "find_idx (natural_key v) (tasks st) = None"
      by (simp add: find_idx_None natural_key_both)
    then show ?thesis by (simp only: fromStep_unmatched)
  qed
  have b2: "tasks ?b =
              (if dryRun then tasks st
               else tasks st @
                 [new_task v
                    (if tasks st \<noteq> [] then js_plus1 (math_max (map task_id (tasks st))) else 1)
                    (now (ticks st))]) \<and>
            updated (results ?b) = updated (results st) \<and>
            conflicts (results ?b) = conflicts (results st)"
    if "\<not> (\<exists>t\<in>set (tasks st). ?Q t)"
  proof -
    from that have "find_idx (title_or_file v) (tasks st) = None"
      by (simp add: find_idx_None title_or_file_either)
    then show ?thesis by (simp only: step_unmatched)
  qed
  have a3: "created (results ?a) = created (results st) \<and>
          (if hasConflict parse (tasks st ! i) v
           then tasks ?a = (tasks st)[i := (tasks st ! i)\<lparr> syncStatus := Some ''conflict'' \<rparr>] \<and>
                conflicts (results ?a) = conflicts (results st) + 1 \<and>
                updated (results ?a) = updated (results st)
           else tasks ?a = (tasks st)[i := object_assign (tasks st ! i) v (now (ticks st))] \<and>
                updated (results ?a) = updated (results st) + 1 \<and>
                conflicts (results ?a) = conflicts (results st))"
    if "i < length (tasks st)" "?P (tasks st ! i)" "\<forall>j<i. \<not> ?P (tasks st ! j)" for i
  proof -
    have "find_idx ?P (tasks st) = Some i"
      using that by (rule find_idx_first)
    then have "find_idx (natural_key v) (tasks st) = Some i"
      by (simp only: natural_key_both)
    then show ?thesis by (simp add: fromStep_matched)
  qed
  have b3: "created (results ?b) = created (results st) \<and>
          (if hasConflict parse (tasks st ! i) v
           then tasks ?b =
                  (if dryRun then tasks st
                   else (tasks st)[i := (tasks st ! i)\<lparr> syncStatus := Some ''conflict'' \<rparr>]) \<and>
                conflicts (results ?b) = conflicts (results st) + 1 \<and>
                updated (results ?b) = updated (results st)
           else tasks ?b =
                  (if dryRun then tasks st
                   else (tasks st)[i := object_assign (tasks st ! i) v (now (ticks st))]) \<and>
                updated (results ?b) = updated (results st) + 1 \<and>
                conflicts (results ?b) = conflicts (results st))"
    if "i < length (tasks st)" "?Q (tasks st ! i)" "\<forall>j<i. \<not> ?Q (tasks st ! j)" for i
  proof -
    have "find_idx ?Q (tasks st) = Some i"
      using that by (rule find_idx_first)
    then have "find_idx (title_or_file v) (tasks st) = Some i"
      by (simp only: title_or_file_either)
    then show ?thesis by (simp add: step_matched)
  qed
  from a1 a2 a3 have A: "((created (results ?a) = created (results st) + 1)
         = (\<not> (\<exists>t\<in>set (tasks st). ?P t))) \<and>
       (\<not> (\<exists>t\<in>set (tasks st). ?P t) \<longrightarrow>
          tasks ?a = tasks st @
            [new_task v (js_plus1 (math_max0 (map task_id (tasks st)))) (now (ticks st))] \<and>
          updated (results ?a) = updated (results st) \<and>
          conflicts (results ?a) = conflicts (results st)) \<and>
       (\<forall>i<length (tasks st). ?P (tasks st ! i) \<and> (\<forall>j<i. \<not> ?P (tasks st ! j)) \<longrightarrow>
          created (results ?a) = created (results st) \<and>
          (if hasConflict parse (tasks st ! i) v
           then tasks ?a = (tasks st)[i := (tasks st ! i)\<lparr> syncStatus := Some ''conflict'' \<rparr>] \<and>
                conflicts (results ?a) = conflicts (results st) + 1 \<and>
                updated (results ?a) = updated (results st)
           else tasks ?a = (tasks st)[i := object_assign (tasks st ! i) v (now (ticks st))] \<and>
                updated (results ?a) = updated (results st) + 1 \<and>
                conflicts (results ?a) = conflicts (results st)))"
    by blast
  from b1 b2 b3 have B: "((created (results ?b) = created (results st) + 1)
         = (\<not> (\<exists>t\<in>set (tasks st). ?Q t))) \<and>
       (\<not> (\<exists>t\<in>set (tasks st). ?Q t) \<longrightarrow>
          tasks ?b =
            (if dryRun then tasks st
             else tasks st @
               [new_task v
                  (if tasks st \<noteq> [] then js_plus1 (math_max (map task_id (tasks st))) else 1)
                  (now (ticks st))]) \<and>
          updated (results ?b) = updated (results st) \<and>
          conflicts (results ?b) = conflicts (results st)) \<and>
       (\<forall>i<length (tasks st). ?Q (tasks st ! i) \<and> (\<forall>j<i. \<not> ?Q (tasks st ! j)) \<longrightarrow>
          created (results ?b) = created (results st) \<and>
          (if hasConflict parse (tasks st ! i) v
           then tasks ?b =
                  (if dryRun then tasks st
                   else (tasks st)[i := (tasks st ! i)\<lparr> syncStatus := Some ''conflict'' \<rparr>]) \<and>
                conflicts (results ?b) = conflicts (results st) + 1 \<and>
                updated (results ?b) = updated (results st)
           else tasks ?b =
                  (if dryRun then tasks st
                   else (tasks st)[i := object_assign (tasks st ! i) v (now (ticks st))]) \<and>
                updated (results ?b) = updated (results st) + 1 \<and>
                conflicts (results ?b) = conflicts (results st)))"
    by blast
  from A B show ?thesis unfolding Let_def by (rule conjI)
qed

text \<open>
  C1 at a store with ``Setup'' from \<^verbatim>\<open>a.md\<close> and the record ``Setup'' of \<^verbatim>\<open>b.md\<close>:
  \<^verbatim>\<open>syncWithObsidian\<close> creates a second task; \<^verbatim>\<open>syncTasksFromObsidian\<close> updates the
  first, and in a dry run counts the update and leaves the task as it is.
\<close>

theorem matching_keys_witness:
  "created (results (syncWithObsidian_fromStep example_parse example_now
      (example_record ''b.md'' ''Setup'' ''done'') example_state)) = 1 \<and>
   map task_id (tasks (syncWithObsidian_fromStep example_parse example_now
      (example_record ''b.md'' ''Setup'' ''done'') example_state)) = [1, 2] \<and>
   map sourceFile (tasks (syncWithObsidian_fromStep example_parse example_now
      (example_record ''b.md'' ''Setup'' ''done'') example_state)) = [Some ''a.md'', Some ''b.md''] \<and>
   created (results (syncTasksFromObsidian_step example_parse example_now False
      (example_record ''b.md'' ''Setup'' ''done'') example_state)) = 0 \<and>
   updated (results (syncTasksFromObsidian_step example_parse example_now False
      (example_record ''b.md'' ''Setup'' ''done'') example_state)) = 1 \<and>
   map sourceFile (tasks (syncTasksFromObsidian_step example_parse example_now False
      (example_record ''b.md'' ''Setup'' ''done'') example_state)) = [Some ''b.md''] \<and>
   map status (tasks (syncTasksFromObsidian_step example_parse example_now False
      (example_record ''b.md'' ''Setup'' ''done'') example_state)) = [''done''] \<and>
   updated (results (syncTasksFromObsidian_step example_parse example_now True
      (example_record ''b.md'' ''Setup'' ''done'') example_state)) = 1 \<and>
   tasks (syncTasksFromObsidian_step example_parse example_now True
      (example_record ''b.md'' ''Setup'' ''done'') example_state) = tasks example_state"
proof -
  let ?v = "example_record ''b.md'' ''Setup'' ''done''"
  let ?t = "example_task 1 ''Setup'' ''pending'' (Some ''a.md'') None"
  have ts: "tasks example_state = [?t]" "created (results example_state) = 0"
    "updated (results example_state) = 0" "ticks example_state = 0"
    by (simp_all add: example_state_def)
  have keys: "sourceFile ?t \<noteq> sourceFile ?v" "title ?t = title ?v"
    by (simp_all add: example_record_def example_task_def)
  have quiet: "\<not> hasConflict example_parse ?t ?v"
    by (simp add: hasConflict_def example_record_def example_task_def field_def)
  have new: "js_plus1 (math_max0 [task_id ?t]) = 2"
    by (simp add: math_max0_def example_task_def js_plus1_def double_round_def)
  have fields: "task_id ?t = 1" "sourceFile ?t = Some ''a.md''"
    "sourceFile (new_task ?v 2 s) = Some ''b.md''" "task_id (new_task ?v 2 s) = 2"
    "sourceFile (object_assign ?t ?v s) = Some ''b.md''"
    "status (object_assign ?t ?v s) = ''done''" for s
    by (simp_all add: example_record_def example_task_def new_task_def object_assign_def)
  note a = matching_keys [where v = ?v and st = example_state and parse = example_parse
      and now = example_now and dryRun = False]
  note b = matching_keys [where v = ?v and st = example_state and parse = example_parse
      and now = example_now and dryRun = True]
  from a have "created (results (syncWithObsidian_fromStep example_parse example_now ?v
        example_state)) = 1 \<and>
      tasks (syncWithObsidian_fromStep example_parse example_now ?v example_state)
        = [?t, new_task ?v 2 (example_now 0)]"
    by (simp add: Let_def ts keys new quiet)
  moreover from a have "created (results (syncTasksFromObsidian_step example_parse example_now
        False ?v example_state)) = 0 \<and>
      updated (results (syncTasksFromObsidian_step example_parse example_now False ?v
        example_state)) = 1 \<and>
      tasks (syncTasksFromObsidian_step example_parse example_now False ?v example_state)
        = [object_assign ?t ?v (example_now 0)]"
    by (simp add: Let_def ts keys quiet)
  moreover from b have "updated (results (syncTasksFromObsidian_step example_parse example_now
        True ?v example_state)) = 1 \<and>
      tasks (syncTasksFromObsidian_step example_parse example_now True ?v example_state) = [?t]"
    by (simp add: Let_def ts keys quiet)
  ultimately show ?thesis by (simp add: fields ts)
qed

text \<open>
  The claim as stated fails on \<^verbatim>\<open>syncTasksFromObsidian\<close>: the store has ``Setup'' from
  \<^verbatim>\<open>a.md\<close>, the vault has ``Setup'' in \<^verbatim>\<open>b.md\<close>; no task has both fields of the record,
  and the record is matched to the task and updates it instead of being created.
\<close>

theorem matching_keys_counterexample:
  "\<not> natural_key (example_record ''b.md'' ''Setup'' ''done'')
       (example_task 1 ''Setup'' ''pending'' (Some ''a.md'') None) \<and>
   created (results (syncTasksFromObsidian_step example_parse example_now False
      (example_record ''b.md'' ''Setup'' ''done'') example_state)) = 0 \<and>
   updated (results (syncTasksFromObsidian_step example_parse example_now False
      (example_record ''b.md'' ''Setup'' ''done'') example_state)) = 1 \<and>
   map sourceFile (tasks (syncTasksFromObsidian_step example_parse example_now False
      (example_record ''b.md'' ''Setup'' ''done'') example_state)) = [Some ''b.md'']"
  by (simp add: syncTasksFromObsidian_step_def example_state_def example_task_def
      example_record_def no_results_def title_or_file_def natural_key_def hasConflict_def
      field_def object_assign_def Let_def)

subsection \<open>Ids assigned by a pass\<close>













lemma task_id_object_assign [simp]: "task_id (object_assign e v s) = task_id e"
  by (simp add: object_assign_def)














lemma partition_of_writeJSON [simp]: "partition_of (writeJSON tag ts w) tag = ts"
  by (simp add: partition_of_def writeJSON_def)





lemma example_task_id [simp]: "task_id (example_task i ttl st file synced) = i"
  by (simp add: example_task_def)

lemma example_vault_tasks:
  "extractTasksFromVault (example_vault fs)
     = [example_record ''note.md'' ''Write docs'' ''pending'',
        example_record ''note.md'' ''Ship it'' ''done'']"
  by (simp add: example_vault_def extractTasksFromVault_def extractFileTasks_def taskMatches_def
      nl_def isLineTerminator_def isCheckboxLine_def startsWith_def example_record_def Let_def)



lemma example_tasks_created:
  "created (fst (syncTasksFromObsidian example_parse example_now example_vault ''master'' False
      example_world)) = 1"
  by (simp add: syncTasksFromObsidian_def example_vault_tasks example_world_def readJSON_def
      syncTasksFromObsidian_step_def title_or_file_def field_def hasConflict_def
      example_record_def example_task_def Let_def new_task_def object_assign_def)




subsection \<open>Writing the store\<close>

lemma writeJSON_journal: "journal (writeJSON tag ts w) = journal w @ [WriteJSON tag ts]"
  by (simp add: writeJSON_def)

text \<open>
  C4, as the code has it. \<^verbatim>\<open>syncTasksFromObsidian\<close> writes the store exactly when the run
  is not a dry run and its tally has a creation or an update; with none of either, and in
  a dry run, it leaves the store and the files as they were. The from-vault branch of
  \<^verbatim>\<open>syncWithObsidian\<close> writes the store at the end of every pass.
\<close>

theorem store_write_guard:
  "(journal (snd (syncTasksFromObsidian parse now scan tag dryRun w)) \<noteq> journal w)
     = (\<not> dryRun \<and> (0 < created (fst (syncTasksFromObsidian parse now scan tag dryRun w)) \<or>
                     0 < updated (fst (syncTasksFromObsidian parse now scan tag dryRun w)))) \<and>
   (created (fst (syncTasksFromObsidian parse now scan tag dryRun w)) = 0 \<and>
    updated (fst (syncTasksFromObsidian parse now scan tag dryRun w)) = 0
      \<longrightarrow> snd (syncTasksFromObsidian parse now scan tag dryRun w) = w) \<and>
   (dryRun \<longrightarrow> snd (syncTasksFromObsidian parse now scan tag dryRun w) = w) \<and>
   journal (snd (syncWithObsidian_from parse now tag vaultTasks tasksData syncResults w))
     = journal w @ [WriteJSON tag (tasks (fold (syncWithObsidian_fromStep parse now) vaultTasks
                      \<lparr> tasks = tasksData, results = syncResults, ticks = 0 \<rparr>))]"
  by (cases dryRun) (auto simp: syncTasksFromObsidian_def syncWithObsidian_from_def Let_def
      writeJSON_journal)

theorem store_write_guard_witness:
  "journal (snd (syncTasksFromObsidian example_parse example_now example_vault ''master'' False
      example_world)) \<noteq> journal example_world \<and>
   snd (syncTasksFromObsidian example_parse example_now (\<lambda>fs. []) ''master'' False
      example_world) = example_world \<and>
   snd (syncTasksFromObsidian example_parse example_now example_vault ''master'' True
      example_world) = example_world"
proof -
  have empty: "fst (syncTasksFromObsidian example_parse example_now (\<lambda>fs. []) ''master'' False
      example_world) = no_results"
    by (simp add: syncTasksFromObsidian_def extractTasksFromVault_def)
  from store_write_guard [of example_parse example_now example_vault "''master''" False
         example_world]
       store_write_guard [of example_parse example_now "\<lambda>fs. []" "''master''" False
         example_world]
       store_write_guard [of example_parse example_now example_vault "''master''" True
         example_world]
  show ?thesis
    by (simp add: example_tasks_created empty)
qed

text \<open>
  The claim as stated fails on \<^verbatim>\<open>syncWithObsidian\<close>: run from the vault over a vault with
  no checkbox line, it creates and updates nothing and still writes the store.
\<close>

theorem store_write_guard_counterexample:
  "syncWithObsidian example_parse example_now (\<lambda>fs. []) ''/vault'' ''master'' ''from-obsidian''
     example_world
   = Inr (no_results,
          example_world\<lparr> journal :=
            [WriteJSON ''master'' [example_task 1 ''Setup'' ''pending'' (Some ''setup.md'') None]] \<rparr>)"
  by (simp add: syncWithObsidian_def readJSON_def example_world_def syncWithObsidian_from_def
      extractTasksFromVault_def writeJSON_def)

subsection \<open>Tasks without a source file\<close>

lemma toStep_skip:
  "\<not> present (sourceFile t) \<Longrightarrow> syncWithObsidian_toStep vaultPath t rw = rw"
  by (cases rw) (simp add: syncWithObsidian_toStep_def present_truthy)

lemma to_filter:
  "syncWithObsidian_to vaultPath ts rw =
   syncWithObsidian_to vaultPath (filter (\<lambda>t. present (sourceFile t)) ts) rw"
  unfolding syncWithObsidian_to_def
  by (induction ts arbitrary: rw) (simp_all add: toStep_skip)

lemma generate_sourceFile:
  "generateMarkdownForTask (t\<lparr> sourceFile := f \<rparr>) = generateMarkdownForTask t"
  by (simp add: generateMarkdownForTask_def)

lemma markdownPath_sourceFile:
  "markdownPath vaultPath (t\<lparr> sourceFile := f \<rparr>) = markdownPath vaultPath t"
  by (simp add: markdownPath_def)

lemma toObs_step_sourceFile:
  "syncTasksToObsidian_step vaultPath dryRun (t\<lparr> sourceFile := f \<rparr>) rw
     = syncTasksToObsidian_step vaultPath dryRun t rw"
  by (cases rw)
     (simp add: syncTasksToObsidian_step_def generate_sourceFile markdownPath_sourceFile Let_def
        split: sum.splits)

lemma toObs_step_writes:
  assumes "\<not> dryRun" "markdownPath vaultPath t \<notin> unwritable (snd rw)"
  shows "files (snd (syncTasksToObsidian_step vaultPath dryRun t rw)) (markdownPath vaultPath t)
           = Some (generateMarkdownForTask t)"
    and "created (fst (syncTasksToObsidian_step vaultPath dryRun t rw)) +
         updated (fst (syncTasksToObsidian_step vaultPath dryRun t rw))
           = created (fst rw) + updated (fst rw) + 1"
  using assms by (cases rw; simp add: syncTasksToObsidian_step_def writeFileSync_def Let_def)+

text \<open>
  C9, as the code has it. The to-vault branch of \<^verbatim>\<open>syncWithObsidian\<close> skips a task whose
  \<open>sourceFile\<close> is empty or absent: the tally and the files stay as they were, and the
  pass is the pass over the tasks that have one. \<^verbatim>\<open>syncTasksToObsidian\<close> does not read
  \<open>sourceFile\<close>: when it is not a dry run and the file can be written, it writes the
  rendering of every task to the file named after the task's id and title, and counts it
  as created or updated.
\<close>

theorem sourceFile_skip:
  "(\<not> present (sourceFile t) \<longrightarrow> syncWithObsidian_toStep vaultPath t rw = rw) \<and>
   syncWithObsidian_to vaultPath ts rw =
     syncWithObsidian_to vaultPath (filter (\<lambda>t. present (sourceFile t)) ts) rw \<and>
   syncTasksToObsidian_step vaultPath dryRun (t\<lparr> sourceFile := f \<rparr>) rw
     = syncTasksToObsidian_step vaultPath dryRun t rw \<and>
   (\<not> dryRun \<and> markdownPath vaultPath t \<notin> unwritable (snd rw) \<longrightarrow>
      files (snd (syncTasksToObsidian_step vaultPath dryRun t rw)) (markdownPath vaultPath t)
        = Some (generateMarkdownForTask t) \<and>
      created (fst (syncTasksToObsidian_step vaultPath dryRun t rw)) +
      updated (fst (syncTasksToObsidian_step vaultPath dryRun t rw))
        = created (fst rw) + updated (fst rw) + 1)"
  using toStep_skip to_filter toObs_step_sourceFile toObs_step_writes by blast

lemma example_markdownPath:
  "markdownPath ''/vault'' (example_task 1 ''Setup'' ''pending'' (Some []) None)
     = ''/vault/Tasks/task-001-setup.md''"
  by code_simp

theorem sourceFile_skip_witness:
  "syncWithObsidian_toStep ''/vault'' (example_task 1 ''Setup'' ''pending'' (Some []) None)
     (no_results, example_world) = (no_results, example_world) \<and>
   files (snd (syncTasksToObsidian_step ''/vault'' False
      (example_task 1 ''Setup'' ''pending'' (Some []) None) (no_results, example_world)))
     ''/vault/Tasks/task-001-setup.md''
     = Some (generateMarkdownForTask (example_task 1 ''Setup'' ''pending'' (Some []) None)) \<and>
   created (fst (syncTasksToObsidian_step ''/vault'' False
      (example_task 1 ''Setup'' ''pending'' (Some []) None) (no_results, example_world))) +
   updated (fst (syncTasksToObsidian_step ''/vault'' False
      (example_task 1 ''Setup'' ''pending'' (Some []) None) (no_results, example_world))) = 1"
proof -
  have a: "\<not> present (sourceFile (example_task 1 ''Setup'' ''pending'' (Some []) None))"
    by (simp add: present_def example_task_def)
  have b: "markdownPath ''/vault'' (example_task 1 ''Setup'' ''pending'' (Some []) None)
             \<notin> unwritable (snd (no_results, example_world))"
    by (simp add: example_world_def)
  from sourceFile_skip [of "example_task 1 ''Setup'' ''pending'' (Some []) None" "''/vault''"
         "(no_results, example_world)" "[]" False "Some []"] a b
  show ?thesis by (simp add: example_markdownPath)
qed

text \<open>
  The claim as stated fails on \<^verbatim>\<open>syncTasksToObsidian\<close>: for a store whose only task has
  an empty \<open>sourceFile\<close> it creates a file and counts one creation.
\<close>

theorem sourceFile_skip_counterexample:
  "(case syncTasksToObsidian ''/vault'' ''master'' False
      (example_world\<lparr> store :=
          [''master'' \<mapsto> [example_task 1 ''Setup'' ''pending'' (Some []) None]] \<rparr>) of
      Inl msg \<Rightarrow> False
    | Inr (res, w) \<Rightarrow>
        created res = 1 \<and>
        journal w = [WriteFile ''/vault/Tasks/task-001-setup.md''
          (generateMarkdownForTask (example_task 1 ''Setup'' ''pending'' (Some []) None))])"
  by (simp add: syncTasksToObsidian_def readJSON_def example_world_def
      syncTasksToObsidian_step_def example_markdownPath writeFileSync_def Let_def)

subsection \<open>Records of the extractor never conflict\<close>

lemma extracted_no_stamps:
  "v \<in> set (extractTasksFromVault fs) \<Longrightarrow> lastModified v = None \<and> lastSyncAt v = None"
  by (auto simp: extractTasksFromVault_def extractFileTasks_def Let_def split: option.splits)

lemma no_stamps_epoch:
  "lastModified v = None \<Longrightarrow> lastSyncAt v = None \<Longrightarrow> effective_evidence parse v = Some 0"
  by (simp add: effective_evidence_def present_def)

lemma no_stamps_no_conflict:
  assumes "lastModified v = None" "lastSyncAt v = None"
    and "not_before_epoch parse (lastSyncAt t)"
  shows "\<not> hasConflict parse t v"
  using assms
  by (auto simp: hasConflict_def Let_def field_def js_or_def new_Date_def date_gt_def
      not_before_epoch_def split: option.splits)

lemma list_all_update:
  "list_all P xs \<Longrightarrow> P y \<Longrightarrow> list_all P (xs[i := y])"
  by (induction xs arbitrary: i) (auto split: nat.splits)

lemma quiet_step:
  assumes inv: "quiet_inv parse T0 c0 st"
    and v: "lastModified v = None" "lastSyncAt v = None"
    and clock: "\<forall>k. not_before_epoch parse (Some (now k))"
  shows "quiet_inv parse T0 c0 (syncTasksFromObsidian_step parse now dryRun v st)"
proof (cases "find_idx (title_or_file v) (tasks st)")
  case None
  with inv clock show ?thesis
    by (simp add: syncTasksFromObsidian_step_def quiet_inv_def Let_def new_task_def)
next
  case (Some i)
  then have i: "i < length (tasks st)" by (simp add: find_idx_Some)
  with inv have "not_before_epoch parse (lastSyncAt (tasks st ! i))"
    by (simp add: quiet_inv_def list_all_length)
  then have nc: "\<not> hasConflict parse (tasks st ! i) v"
    by (rule no_stamps_no_conflict [OF v])
  have "not_before_epoch parse (lastSyncAt (object_assign (tasks st ! i) v (now (ticks st))))"
    using clock by (simp add: object_assign_def)
  moreover have "syncStatus (object_assign (tasks st ! i) v (now (ticks st))) \<noteq> Some ''conflict''"
    by (simp add: object_assign_def)
  ultimately show ?thesis
    using inv Some nc
    by (simp add: syncTasksFromObsidian_step_def quiet_inv_def Let_def list_all_update)
qed

lemma quiet_fold:
  assumes "quiet_inv parse T0 c0 st"
    and "\<forall>v\<in>set vs. lastModified v = None \<and> lastSyncAt v = None"
    and "\<forall>k. not_before_epoch parse (Some (now k))"
  shows "quiet_inv parse T0 c0 (fold (syncTasksFromObsidian_step parse now dryRun) vs st)"
  using assms
proof (induction vs arbitrary: st)
  case Nil
  then show ?case by simp
next
  case (Cons v vs)
  have "quiet_inv parse T0 c0 (syncTasksFromObsidian_step parse now dryRun v st)"
    using Cons.prems by (intro quiet_step) simp_all
  then show ?case using Cons.prems by (simp add: Cons.IH)
qed

lemma quiet_fromStep:
  assumes inv: "quiet_inv parse T0 c0 st"
    and v: "lastModified v = None" "lastSyncAt v = None"
    and clock: "\<forall>k. not_before_epoch parse (Some (now k))"
  shows "quiet_inv parse T0 c0 (syncWithObsidian_fromStep parse now v st)"
proof (cases "find_idx (natural_key v) (tasks st)")
  case None
  with inv clock show ?thesis
    by (simp add: syncWithObsidian_fromStep_def quiet_inv_def Let_def new_task_def)
next
  case (Some i)
  then have i: "i < length (tasks st)" by (simp add: find_idx_Some)
  with inv have "not_before_epoch parse (lastSyncAt (tasks st ! i))"
    by (simp add: quiet_inv_def list_all_length)
  then have nc: "\<not> hasConflict parse (tasks st ! i) v"
    by (rule no_stamps_no_conflict [OF v])
  have "not_before_epoch parse (lastSyncAt (object_assign (tasks st ! i) v (now (ticks st))))"
    using clock by (simp add: object_assign_def)
  moreover have "syncStatus (object_assign (tasks st ! i) v (now (ticks st))) \<noteq> Some ''conflict''"
    by (simp add: object_assign_def)
  ultimately show ?thesis
    using inv Some nc
    by (simp add: syncWithObsidian_fromStep_def quiet_inv_def Let_def list_all_update)
qed

lemma quiet_from_fold:
  assumes "quiet_inv parse T0 c0 st"
    and "\<forall>v\<in>set vs. lastModified v = None \<and> lastSyncAt v = None"
    and "\<forall>k. not_before_epoch parse (Some (now k))"
  shows "quiet_inv parse T0 c0 (fold (syncWithObsidian_fromStep parse now) vs st)"
  using assms
proof (induction vs arbitrary: st)
  case Nil
  then show ?case by simp
next
  case (Cons v vs)
  have "quiet_inv parse T0 c0 (syncWithObsidian_fromStep parse now v st)"
    using Cons.prems by (intro quiet_fromStep) simp_all
  then show ?case using Cons.prems by (simp add: Cons.IH)
qed

lemma quiet_init:
  "\<forall>t\<in>set T. not_before_epoch parse (lastSyncAt t) \<Longrightarrow>
   quiet_inv parse T (conflicts r) \<lparr> tasks = T, results = r, ticks = k \<rparr>"
  by (simp add: quiet_inv_def list_all_iff)

lemma quiet_tasks_pass:
  assumes T: "\<forall>t\<in>set (partition_of w tag). not_before_epoch parse (lastSyncAt t)"
    and clock: "\<forall>k. not_before_epoch parse (Some (now k))"
  shows "conflicts (fst (syncTasksFromObsidian parse now scan tag dryRun w)) = 0"
    and "\<forall>t\<in>set (partition_of (snd (syncTasksFromObsidian parse now scan tag dryRun w)) tag).
           syncStatus t = Some ''conflict'' \<longrightarrow> t \<in> set (partition_of w tag)"
proof -
  let ?vs = "extractTasksFromVault (scan (files w))"
  let ?T = "partition_of w tag"
  let ?st = "fold (syncTasksFromObsidian_step parse now dryRun) ?vs
               \<lparr> tasks = ?T, results = no_results, ticks = 0 \<rparr>"
  have vs: "\<forall>v\<in>set ?vs. lastModified v = None \<and> lastSyncAt v = None"
    using extracted_no_stamps by blast
  have "quiet_inv parse ?T (conflicts no_results) ?st"
    by (rule quiet_fold [OF quiet_init [OF T] vs clock])
  then have q: "conflicts (results ?st) = 0"
    "\<forall>t\<in>set (tasks ?st). syncStatus t = Some ''conflict'' \<longrightarrow> t \<in> set ?T"
    by (simp_all add: quiet_inv_def list_all_iff)
  have T': "(case readJSON w tag of None \<Rightarrow> [] | Some ts \<Rightarrow> ts) = ?T"
    by (simp add: readJSON_def partition_of_def)
  show "conflicts (fst (syncTasksFromObsidian parse now scan tag dryRun w)) = 0"
    using q(1) by (simp add: syncTasksFromObsidian_def Let_def T')
  show "\<forall>t\<in>set (partition_of (snd (syncTasksFromObsidian parse now scan tag dryRun w)) tag).
           syncStatus t = Some ''conflict'' \<longrightarrow> t \<in> set (partition_of w tag)"
    using q(2) by (simp add: syncTasksFromObsidian_def Let_def T')
qed

lemma quiet_from_pass:
  assumes T: "\<forall>t\<in>set T. not_before_epoch parse (lastSyncAt t)"
    and clock: "\<forall>k. not_before_epoch parse (Some (now k))"
  shows "conflicts (fst (syncWithObsidian_from parse now tag (extractTasksFromVault fs) T r0 w))
           = conflicts r0"
    and "\<forall>t\<in>set (partition_of
            (snd (syncWithObsidian_from parse now tag (extractTasksFromVault fs) T r0 w)) tag).
           syncStatus t = Some ''conflict'' \<longrightarrow> t \<in> set T"
proof -
  let ?st = "fold (syncWithObsidian_fromStep parse now) (extractTasksFromVault fs)
               \<lparr> tasks = T, results = r0, ticks = 0 \<rparr>"
  have vs: "\<forall>v\<in>set (extractTasksFromVault fs). lastModified v = None \<and> lastSyncAt v = None"
    using extracted_no_stamps by blast
  have "quiet_inv parse T (conflicts r0) ?st"
    by (rule quiet_from_fold [OF quiet_init [OF T] vs clock])
  then have q: "conflicts (results ?st) = conflicts r0"
    "\<forall>t\<in>set (tasks ?st). syncStatus t = Some ''conflict'' \<longrightarrow> t \<in> set T"
    by (simp_all add: quiet_inv_def list_all_iff)
  show "conflicts (fst (syncWithObsidian_from parse now tag (extractTasksFromVault fs) T r0 w))
           = conflicts r0"
    using q(1) by (simp add: syncWithObsidian_from_def Let_def)
  show "\<forall>t\<in>set (partition_of
            (snd (syncWithObsidian_from parse now tag (extractTasksFromVault fs) T r0 w)) tag).
           syncStatus t = Some ''conflict'' \<longrightarrow> t \<in> set T"
    using q(2) by (simp add: syncWithObsidian_from_def Let_def)
qed

text \<open>
  C10. A record of the extractor has neither \<open>lastModified\<close> nor \<open>lastSyncAt\<close>; its
  effective modification evidence is the epoch, and it conflicts with no task whose
  \<open>lastSyncAt\<close> is not before the epoch. So, when no task of the partition is stamped
  before the epoch and the clock does not run before the epoch, a pass of
  \<^verbatim>\<open>syncTasksFromObsidian\<close> counts no conflict and marks no task as a conflict: a task
  that has this mark after the pass is a task of the partition as it was. The same holds
  for the from-vault branch of \<^verbatim>\<open>syncWithObsidian\<close>.
\<close>

theorem extractor_never_conflicts:
  "(\<forall>v\<in>set (extractTasksFromVault fs).
      lastModified v = None \<and> lastSyncAt v = None \<and> effective_evidence parse v = Some 0 \<and>
      (not_before_epoch parse (lastSyncAt (t::task)) \<longrightarrow> \<not> hasConflict parse t v)) \<and>
   ((\<forall>t\<in>set (partition_of w tag). not_before_epoch parse (lastSyncAt t)) \<and>
    (\<forall>k. not_before_epoch parse (Some (now k))) \<longrightarrow>
      conflicts (fst (syncTasksFromObsidian parse now scan tag dryRun w)) = 0 \<and>
      (\<forall>t\<in>set (partition_of (snd (syncTasksFromObsidian parse now scan tag dryRun w)) tag).
          syncStatus t = Some ''conflict'' \<longrightarrow> t \<in> set (partition_of w tag))) \<and>
   ((\<forall>t\<in>set T. not_before_epoch parse (lastSyncAt t)) \<and>
    (\<forall>k. not_before_epoch parse (Some (now k))) \<longrightarrow>
      conflicts (fst (syncWithObsidian_from parse now tag (extractTasksFromVault fs) T r0 w))
        = conflicts r0 \<and>
      (\<forall>t\<in>set (partition_of
           (snd (syncWithObsidian_from parse now tag (extractTasksFromVault fs) T r0 w)) tag).
          syncStatus t = Some ''conflict'' \<longrightarrow> t \<in> set T))"
proof (intro conjI ballI impI)
  fix v assume v: "v \<in> set (extractTasksFromVault fs)"
  show "lastModified v = None" "lastSyncAt v = None"
    using extracted_no_stamps [OF v] by simp_all
  then show "effective_evidence parse v = Some 0" by (rule no_stamps_epoch)
  assume "not_before_epoch parse (lastSyncAt t)"
  then show "\<not> hasConflict parse t v"
    using extracted_no_stamps [OF v] by (intro no_stamps_no_conflict) simp_all
next
  assume "(\<forall>t\<in>set (partition_of w tag). not_before_epoch parse (lastSyncAt t)) \<and>
          (\<forall>k. not_before_epoch parse (Some (now k)))"
  then show "conflicts (fst (syncTasksFromObsidian parse now scan tag dryRun w)) = 0"
    by (intro quiet_tasks_pass(1)) simp_all
next
  fix t'
  assume "(\<forall>t\<in>set (partition_of w tag). not_before_epoch parse (lastSyncAt t)) \<and>
          (\<forall>k. not_before_epoch parse (Some (now k)))"
    and "t' \<in> set (partition_of (snd (syncTasksFromObsidian parse now scan tag dryRun w)) tag)"
    and "syncStatus t' = Some ''conflict''"
  then show "t' \<in> set (partition_of w tag)"
    using quiet_tasks_pass(2) [of w tag parse now scan dryRun] by blast
next
  assume "(\<forall>t\<in>set T. not_before_epoch parse (lastSyncAt t)) \<and>
          (\<forall>k. not_before_epoch parse (Some (now k)))"
  then show "conflicts (fst (syncWithObsidian_from parse now tag (extractTasksFromVault fs) T r0 w))
        = conflicts r0"
    by (intro quiet_from_pass(1)) simp_all
next
  fix t'
  assume "(\<forall>t\<in>set T. not_before_epoch parse (lastSyncAt t)) \<and>
          (\<forall>k. not_before_epoch parse (Some (now k)))"
    and "t' \<in> set (partition_of
           (snd (syncWithObsidian_from parse now tag (extractTasksFromVault fs) T r0 w)) tag)"
    and "syncStatus t' = Some ''conflict''"
  then show "t' \<in> set T"
    using quiet_from_pass(2) [of T parse now tag fs r0 w] by blast
qed

theorem extractor_never_conflicts_witness:
  "\<not> hasConflict example_parse
       (example_task 1 ''Write docs'' ''done'' (Some ''note.md'') (Some ''2023-01-01T00:00:00.000Z''))
       (example_record ''note.md'' ''Write docs'' ''pending'') \<and>
   conflicts (fst (syncTasksFromObsidian example_parse example_now example_vault ''master'' False
      (example_world\<lparr> store := [''master'' \<mapsto>
         [example_task 1 ''Write docs'' ''done'' (Some ''note.md'')
            (Some ''2023-01-01T00:00:00.000Z'')]] \<rparr>))) = 0 \<and>
   conflicts (fst (syncWithObsidian_from example_parse example_now ''master''
      (extractTasksFromVault (example_vault Map.empty))
      [example_task 1 ''Write docs'' ''done'' (Some ''note.md'') (Some ''2023-01-01T00:00:00.000Z'')]
      no_results
      (example_world\<lparr> store := [''master'' \<mapsto>
         [example_task 1 ''Write docs'' ''done'' (Some ''note.md'')
            (Some ''2023-01-01T00:00:00.000Z'')]] \<rparr>))) = 0"
proof -
  let ?t = "example_task 1 ''Write docs'' ''done'' (Some ''note.md'')
              (Some ''2023-01-01T00:00:00.000Z'')"
  let ?w = "example_world\<lparr> store := [''master'' \<mapsto> [?t]] \<rparr>"
  have v: "example_record ''note.md'' ''Write docs'' ''pending''
             \<in> set (extractTasksFromVault (example_vault Map.empty))"
    by (simp add: example_vault_tasks)
  have t: "not_before_epoch example_parse (lastSyncAt ?t)"
    by (simp add: not_before_epoch_def example_task_def example_parse_def)
  have P: "\<forall>t\<in>set (partition_of ?w ''master''). not_before_epoch example_parse (lastSyncAt t)"
    using t by (simp add: partition_of_def)
  have T: "\<forall>t\<in>set [?t]. not_before_epoch example_parse (lastSyncAt t)"
    using t by simp
  have clock: "\<forall>k. not_before_epoch example_parse (Some (example_now k))"
    by (simp add: not_before_epoch_def example_now_def example_parse_def)
  note inst = extractor_never_conflicts [where fs = "example_vault Map.empty"
      and parse = example_parse and t = ?t and w = ?w and tag = "''master''"
      and now = example_now and scan = example_vault and dryRun = False and T = "[?t]"
      and ?r0.0 = no_results]
  from inst v t P T clock show ?thesis
    by (simp del: fun_upd_apply)
qed

subsection \<open>Resolving a token\<close>

lemma find_first:
  "(case find P xs of None \<Rightarrow> z | Some x \<Rightarrow> f x)
     = (case [f x. x \<leftarrow> xs, P x] of [] \<Rightarrow> z | r # _ \<Rightarrow> r)"
  by (induction xs) simp_all

lemma first_append:
  "(case xs @ ys of [] \<Rightarrow> z | r # _ \<Rightarrow> r)
     = (case xs of [] \<Rightarrow> (case ys of [] \<Rightarrow> z | r # _ \<Rightarrow> r) | r # _ \<Rightarrow> r)"
  by (cases xs) simp_all

lemma find_subtask_first:
  "(case find_subtask P ts of None \<Rightarrow> z | Some r \<Rightarrow> r)
     = (case [dotted p st. p \<leftarrow> ts, st \<leftarrow> subtasks_of p, P (sub_title st)] of
          [] \<Rightarrow> z | r # _ \<Rightarrow> r)"
proof (induction ts)
  case Nil
  then show ?case by simp
next
  case (Cons p ts)
  let ?here = "[dotted p st. st \<leftarrow> subtasks_of p, P (sub_title st)]"
  let ?later = "[dotted q st. q \<leftarrow> ts, st \<leftarrow> subtasks_of q, P (sub_title st)]"
  have "(case find_subtask P (p # ts) of None \<Rightarrow> z | Some r \<Rightarrow> r)
          = (case find (\<lambda>st. P (sub_title st)) (subtasks_of p) of
               None \<Rightarrow> (case find_subtask P ts of None \<Rightarrow> z | Some r \<Rightarrow> r)
             | Some st \<Rightarrow> dotted p st)"
    by (simp add: subtasks_of_def split: option.splits)
  also have "\<dots> = (case ?here of
               [] \<Rightarrow> (case find_subtask P ts of None \<Rightarrow> z | Some r \<Rightarrow> r)
             | r # _ \<Rightarrow> r)"
    by (rule find_first)
  also have "\<dots> = (case ?here of [] \<Rightarrow> (case ?later of [] \<Rightarrow> z | r # _ \<Rightarrow> r) | r # _ \<Rightarrow> r)"
    by (simp only: Cons.IH)
  also have "\<dots> = (case ?here @ ?later of [] \<Rightarrow> z | r # _ \<Rightarrow> r)"
    by (rule first_append [symmetric])
  finally show ?case by simp
qed

lemma resolve_first:
  "(case find (\<lambda>t. P (title t)) ts of
      Some t \<Rightarrow> JNum (task_id t)
    | None \<Rightarrow>
        (case find_subtask P ts of
           Some r \<Rightarrow> r
         | None \<Rightarrow>
             (case find (\<lambda>t. Q (title t)) ts of
                Some t \<Rightarrow> JNum (task_id t)
              | None \<Rightarrow> (case find_subtask Q ts of Some r \<Rightarrow> r | None \<Rightarrow> z))))
   = (case [JNum (task_id t). t \<leftarrow> ts, P (title t)] @
           [dotted p st. p \<leftarrow> ts, st \<leftarrow> subtasks_of p, P (sub_title st)] @
           [JNum (task_id t). t \<leftarrow> ts, Q (title t)] @
           [dotted p st. p \<leftarrow> ts, st \<leftarrow> subtasks_of p, Q (sub_title st)] of
        [] \<Rightarrow> z | r # _ \<Rightarrow> r)"
  by (simp add: first_append find_first find_subtask_first
      cong: list.case_cong option.case_cong)

lemma exact_ci_map: "exact_ci a b = (toLowerCase a = toLowerCase b)"
  unfolding exact_ci_def toLowerCase_def
proof (induction a arbitrary: b)
  case Nil
  then show ?case by auto
next
  case (Cons x a)
  then show ?case by (cases b) auto
qed

lemma title_is_exact:
  assumes "inner \<noteq> []"
  shows "title_is inner ttl = exact_ci ttl inner"
proof -
  have "toLowerCase ttl = toLowerCase inner \<Longrightarrow> ttl \<noteq> []"
    using assms by (auto simp: toLowerCase_def)
  then show ?thesis by (auto simp: title_is_def exact_ci_map)
qed

lemma str_includes_iff:
  "str_includes hay n = (\<exists>i\<le>length hay. take (length n) (drop i hay) = n)"
proof (induction hay)
  case Nil
  then show ?case by auto
next
  case (Cons c cs)
  have "(\<exists>i\<le>length (c # cs). take (length n) (drop i (c # cs)) = n)
        = (take (length n) (c # cs) = n \<or> (\<exists>j\<le>length cs. take (length n) (drop j cs) = n))"
  proof
    assume "\<exists>i\<le>length (c # cs). take (length n) (drop i (c # cs)) = n"
    then obtain i where i: "i \<le> length (c # cs)" "take (length n) (drop i (c # cs)) = n"
      by blast
    show "take (length n) (c # cs) = n \<or> (\<exists>j\<le>length cs. take (length n) (drop j cs) = n)"
    proof (cases i)
      case 0
      with i show ?thesis by simp
    next
      case (Suc j)
      with i have "j \<le> length cs \<and> take (length n) (drop j cs) = n" by simp
      then show ?thesis by blast
    qed
  next
    assume "take (length n) (c # cs) = n \<or> (\<exists>j\<le>length cs. take (length n) (drop j cs) = n)"
    then show "\<exists>i\<le>length (c # cs). take (length n) (drop i (c # cs)) = n"
    proof
      assume "take (length n) (c # cs) = n"
      then have "0 \<le> length (c # cs) \<and> take (length n) (drop 0 (c # cs)) = n" by simp
      then show ?thesis by blast
    next
      assume "\<exists>j\<le>length cs. take (length n) (drop j cs) = n"
      then obtain j where "j \<le> length cs" "take (length n) (drop j cs) = n" by blast
      then have "Suc j \<le> length (c # cs) \<and> take (length n) (drop (Suc j) (c # cs)) = n"
        by simp
      then show ?thesis by blast
    qed
  qed
  with Cons show ?case by (simp add: startsWith_def)
qed

lemma substring_ci_iff:
  "substring_ci ttl inner
     = (\<exists>i\<le>length ttl. take (length inner) (drop i (toLowerCase ttl)) = toLowerCase inner)"
proof -
  have "substring_ci ttl inner
      = (\<exists>i\<in>{0..<Suc (length ttl)}. exact_ci (take (length inner) (drop i ttl)) inner)"
    by (simp only: substring_ci_def list_ex_iff set_upt)
  also have "\<dots> = (\<exists>i\<le>length ttl. exact_ci (take (length inner) (drop i ttl)) inner)"
    by (auto simp: less_Suc_eq_le)
  also have "\<dots> = (\<exists>i\<le>length ttl.
      take (length inner) (drop i (toLowerCase ttl)) = toLowerCase inner)"
    by (simp add: exact_ci_map toLowerCase_def take_map drop_map)
  finally show ?thesis .
qed

lemma title_has_substring:
  assumes "inner \<noteq> []"
  shows "title_has inner ttl = substring_ci ttl inner"
proof -
  have len: "length (toLowerCase s) = length s" for s by (simp add: toLowerCase_def)
  have inc: "str_includes (toLowerCase ttl) (toLowerCase inner) = substring_ci ttl inner"
    by (simp add: str_includes_iff substring_ci_iff len)
  have "ttl \<noteq> []" if "substring_ci ttl inner"
  proof
    assume "ttl = []"
    with that have "toLowerCase inner = []" by (simp add: substring_ci_iff toLowerCase_def)
    with assms show False by (simp add: toLowerCase_def)
  qed
  with inc show ?thesis by (auto simp: title_has_def)
qed

text \<open>
  C6. On a token in double brackets the resolution strips the brackets and trims; an empty
  inner text gives \<open>null\<close>; otherwise the answer is the first match of, in this order,
  the top-level tasks whose title is the text, the subtasks whose title is the text (as
  \<open>parentId.subId\<close>), the top-level tasks whose title contains the text, the subtasks
  whose title contains it, all of this case apart; with no match the token is returned
  unchanged. A string that is not such a token is returned unchanged.
\<close>

theorem resolve_link_order:
  "(startsWith s ''[['' \<and> endsWith s '']]'' \<longrightarrow>
      resolveObsidianLink_toId (JStr s) ts = resolveToId_spec s ts) \<and>
   (\<not> (startsWith s ''[['' \<and> endsWith s '']]'') \<longrightarrow>
      resolveObsidianLink_toId (JStr s) ts = JStr s)"
proof (cases "trim (slice_2_m2 s) = []")
  case True
  then show ?thesis
    by (simp add: resolveObsidianLink_toId_def resolveToId_spec_def Let_def)
next
  case False
  have P: "title_is (trim (slice_2_m2 s)) = (\<lambda>ttl. exact_ci ttl (trim (slice_2_m2 s)))"
    by (rule ext) (rule title_is_exact [OF False])
  have Q: "title_has (trim (slice_2_m2 s)) = (\<lambda>ttl. substring_ci ttl (trim (slice_2_m2 s)))"
    by (rule ext) (rule title_has_substring [OF False])
  have "resolveObsidianLink_toId (JStr s) ts = resolveToId_spec s ts"
    if "startsWith s ''[['' \<and> endsWith s '']]''"
    using that False
    by (simp only: resolveObsidianLink_toId_def resolveToId_spec_def candidates_def Let_def
        js_value.case if_True if_False simp_thms resolve_first P Q)
  moreover have "resolveObsidianLink_toId (JStr s) ts = JStr s"
    if "\<not> (startsWith s ''[['' \<and> endsWith s '']]'')"
    using that by (auto simp add: resolveObsidianLink_toId_def)
  ultimately show ?thesis by blast
qed

lemma example_resolutions:
  "resolveObsidianLink_toId (JStr ''[[Auth System]]'') example_partition = JNum 7"
  "resolveObsidianLink_toId (JStr ''[[ auth system tests ]]'') example_partition = JStr ''8.2''"
  "resolveObsidianLink_toId (JStr ''[[tests]]'') example_partition = JStr ''8.2''"
  "resolveObsidianLink_toId (JStr ''[[auth]]'') example_partition = JNum 7"
  "resolveObsidianLink_toId (JStr ''[[Nonexistent Thing]]'') example_partition = JStr ''[[Nonexistent Thing]]''"
  "resolveObsidianLink_toId (JStr ''[[  ]]'') example_partition = JNull"
  "resolveObsidianLink_toId (JStr ''Auth System'') example_partition = JStr ''Auth System''"
  by code_simp+

text \<open>
  In \<open>example_titles\<close> the exact match of a later task wins over the substring match of
  an earlier one, the exact match of a subtask over the substring match of an earlier
  subtask and over that of a top-level task, and the substring match of a top-level task
  over that of a subtask.
\<close>

lemma example_precedence:
  "resolveObsidianLink_toId (JStr ''[[Auth System]]'') example_titles = JNum 2"
  "resolveObsidianLink_toId (JStr ''[[login flow]]'') example_titles = JStr ''3.2''"
  "resolveObsidianLink_toId (JStr ''[[routes]]'') example_titles = JStr ''3.1''"
  "resolveObsidianLink_toId (JStr ''[[extended]]'') example_titles = JNum 1"
  "resolveObsidianLink_toId (JStr ''[[flow]]'') example_titles = JStr ''1.1''"
  "resolveObsidianLink_toId (JStr ''[[table]]'') example_titles = JNum 4"
  by code_simp+

theorem resolve_link_order_witness:
  "resolveObsidianLink_toId (JStr ''[[Auth System]]'') example_partition = JNum 7 \<and>
   resolveToId_spec ''[[Auth System]]'' example_partition = JNum 7 \<and>
   resolveObsidianLink_toId (JStr ''[[ auth system tests ]]'') example_partition = JStr ''8.2'' \<and>
   resolveToId_spec ''[[ auth system tests ]]'' example_partition = JStr ''8.2'' \<and>
   resolveObsidianLink_toId (JStr ''[[tests]]'') example_partition = JStr ''8.2'' \<and>
   resolveToId_spec ''[[tests]]'' example_partition = JStr ''8.2'' \<and>
   resolveObsidianLink_toId (JStr ''[[auth]]'') example_partition = JNum 7 \<and>
   resolveToId_spec ''[[auth]]'' example_partition = JNum 7 \<and>
   resolveObsidianLink_toId (JStr ''[[Nonexistent Thing]]'') example_partition = JStr ''[[Nonexistent Thing]]'' \<and>
   resolveToId_spec ''[[Nonexistent Thing]]'' example_partition = JStr ''[[Nonexistent Thing]]'' \<and>
   resolveObsidianLink_toId (JStr ''[[  ]]'') example_partition = JNull \<and>
   resolveToId_spec ''[[  ]]'' example_partition = JNull \<and>
   resolveObsidianLink_toId (JStr ''Auth System'') example_partition = JStr ''Auth System'' \<and>
   resolveObsidianLink_toId (JStr ''[[Auth System]]'') example_titles = JNum 2 \<and>
   resolveToId_spec ''[[Auth System]]'' example_titles = JNum 2 \<and>
   resolveObsidianLink_toId (JStr ''[[login flow]]'') example_titles = JStr ''3.2'' \<and>
   resolveToId_spec ''[[login flow]]'' example_titles = JStr ''3.2'' \<and>
   resolveObsidianLink_toId (JStr ''[[routes]]'') example_titles = JStr ''3.1'' \<and>
   resolveToId_spec ''[[routes]]'' example_titles = JStr ''3.1'' \<and>
   resolveObsidianLink_toId (JStr ''[[extended]]'') example_titles = JNum 1 \<and>
   resolveToId_spec ''[[extended]]'' example_titles = JNum 1 \<and>
   resolveObsidianLink_toId (JStr ''[[flow]]'') example_titles = JStr ''1.1'' \<and>
   resolveToId_spec ''[[flow]]'' example_titles = JStr ''1.1'' \<and>
   resolveObsidianLink_toId (JStr ''[[table]]'') example_titles = JNum 4 \<and>
   resolveToId_spec ''[[table]]'' example_titles = JNum 4"
proof -
  have a1: "resolveToId_spec ''[[Auth System]]'' example_partition = JNum 7"
    using resolve_link_order [of "''[[Auth System]]''" example_partition]
    by (simp add: example_resolutions(1) startsWith_def endsWith_def)
  have a2: "resolveToId_spec ''[[ auth system tests ]]'' example_partition = JStr ''8.2''"
    using resolve_link_order [of "''[[ auth system tests ]]''" example_partition]
    by (simp add: example_resolutions(2) startsWith_def endsWith_def)
  have a3: "resolveToId_spec ''[[tests]]'' example_partition = JStr ''8.2''"
    using resolve_link_order [of "''[[tests]]''" example_partition]
    by (simp add: example_resolutions(3) startsWith_def endsWith_def)
  have a4: "resolveToId_spec ''[[auth]]'' example_partition = JNum 7"
    using resolve_link_order [of "''[[auth]]''" example_partition]
    by (simp add: example_resolutions(4) startsWith_def endsWith_def)
  have a5: "resolveToId_spec ''[[Nonexistent Thing]]'' example_partition = JStr ''[[Nonexistent Thing]]''"
    using resolve_link_order [of "''[[Nonexistent Thing]]''" example_partition]
    by (simp add: example_resolutions(5) startsWith_def endsWith_def)
  have a6: "resolveToId_spec ''[[  ]]'' example_partition = JNull"
    using resolve_link_order [of "''[[  ]]''" example_partition]
    by (simp add: example_resolutions(6) startsWith_def endsWith_def)
  have b1: "resolveToId_spec ''[[Auth System]]'' example_titles = JNum 2"
    using resolve_link_order [of "''[[Auth System]]''" example_titles]
    by (simp add: example_precedence(1) startsWith_def endsWith_def)
  have b2: "resolveToId_spec ''[[login flow]]'' example_titles = JStr ''3.2''"
    using resolve_link_order [of "''[[login flow]]''" example_titles]
    by (simp add: example_precedence(2) startsWith_def endsWith_def)
  have b3: "resolveToId_spec ''[[routes]]'' example_titles = JStr ''3.1''"
    using resolve_link_order [of "''[[routes]]''" example_titles]
    by (simp add: example_precedence(3) startsWith_def endsWith_def)
  have b4: "resolveToId_spec ''[[extended]]'' example_titles = JNum 1"
    using resolve_link_order [of "''[[extended]]''" example_titles]
    by (simp add: example_precedence(4) startsWith_def endsWith_def)
  have b5: "resolveToId_spec ''[[flow]]'' example_titles = JStr ''1.1''"
    using resolve_link_order [of "''[[flow]]''" example_titles]
    by (simp add: example_precedence(5) startsWith_def endsWith_def)
  have b6: "resolveToId_spec ''[[table]]'' example_titles = JNum 4"
    using resolve_link_order [of "''[[table]]''" example_titles]
    by (simp add: example_precedence(6) startsWith_def endsWith_def)
  show ?thesis
    by (simp only: a1 a2 a3 a4 a5 a6 b1 b2 b3 b4 b5 b6 example_resolutions example_precedence simp_thms)
qed

subsection \<open>Remapped dependencies\<close>

lemma process_drafts_Cons:
  "fst (process_drafts now k cur m (t # ts))
     = processed_task t cur (now k)
         # fst (process_drafts now (k + 1) (js_plus1 cur) (m(task_id t \<mapsto> cur)) ts)"
  "snd (process_drafts now k cur m (t # ts))
     = snd (process_drafts now (k + 1) (js_plus1 cur) (m(task_id t \<mapsto> cur)) ts)"
  by (simp_all add: Let_def case_prod_beta)

lemma process_drafts_length: "length (fst (process_drafts now k cur m ts)) = length ts"
  by (induction ts arbitrary: k cur m) (simp_all add: process_drafts_Cons del: process_drafts.simps(2))

lemma task_id_processed [simp]: "task_id (processed_task t i s) = i"
  by (simp add: processed_task_def)

lemma dependencies_processed [simp]: "dependencies (processed_task t i s) = dependencies t"
  by (simp add: processed_task_def)

lemma process_drafts_head:
  "ts \<noteq> [] \<Longrightarrow> task_id (fst (process_drafts now k cur m ts) ! 0) = cur"
  by (cases ts) (simp_all add: process_drafts_Cons del: process_drafts.simps(2))

lemma process_drafts_nth:
  "i < length ts \<Longrightarrow>
   dependencies (fst (process_drafts now k cur m ts) ! i) = dependencies (ts ! i)"
proof (induction ts arbitrary: k cur m i)
  case Nil
  then show ?case by simp
next
  case (Cons t ts)
  show ?case
  proof (cases i)
    case 0
    then show ?thesis by (simp add: process_drafts_Cons del: process_drafts.simps(2))
  next
    case (Suc j)
    with Cons.prems have "j < length ts" by simp
    from Cons.IH [OF this] Suc
    show ?thesis by (simp add: process_drafts_Cons del: process_drafts.simps(2))
  qed
qed

lemma process_drafts_map:
  "snd (process_drafts now k cur m ts) p = Some d \<Longrightarrow>
   m p = Some d \<or>
   (\<exists>j<length ts. task_id (ts ! j) = p \<and> task_id (fst (process_drafts now k cur m ts) ! j) = d)"
proof (induction ts arbitrary: k cur m)
  case Nil
  then show ?case by simp
next
  case (Cons t ts)
  let ?rest = "process_drafts now (k + 1) (js_plus1 cur) (m(task_id t \<mapsto> cur)) ts"
  from Cons.prems have "snd ?rest p = Some d"
    by (simp add: process_drafts_Cons del: process_drafts.simps(2))
  from Cons.IH [OF this]
  consider "(m(task_id t \<mapsto> cur)) p = Some d"
    | j where "j < length ts" "task_id (ts ! j) = p" "task_id (fst ?rest ! j) = d"
    by blast
  then show ?case
  proof cases
    case 1
    show ?thesis
    proof (cases "p = task_id t")
      case True
      with 1 have "d = cur" by simp
      with True have "0 < length (t # ts) \<and> task_id ((t # ts) ! 0) = p \<and>
          task_id (fst (process_drafts now k cur m (t # ts)) ! 0) = d"
        by (simp add: process_drafts_Cons del: process_drafts.simps(2))
      then show ?thesis by blast
    next
      case False
      with 1 show ?thesis by simp
    qed
  next
    case 2
    then have "Suc j < length (t # ts) \<and> task_id ((t # ts) ! Suc j) = p \<and>
        task_id (fst (process_drafts now k cur m (t # ts)) ! Suc j) = d"
      by (simp add: process_drafts_Cons del: process_drafts.simps(2))
    then show ?thesis by blast
  qed
qed

lemma task_id_remap [simp]: "task_id (remap_dependencies tm ex ps t) = task_id t"
  by (simp add: remap_dependencies_def)

lemma dependencies_remap:
  "d \<in> set (dependencies (remap_dependencies tm ex ps t)) \<Longrightarrow>
   d < task_id t \<and> (has_id ex d \<or> has_id ps d) \<and> (\<exists>p\<in>set (dependencies t). tm p = Some d)"
  by (auto simp: remap_dependencies_def)

lemma has_id_map: "map task_id xs = map task_id ys \<Longrightarrow> has_id xs d = has_id ys d"
proof -
  assume "map task_id xs = map task_id ys"
  then have "set (map task_id xs) = set (map task_id ys)" by simp
  then show ?thesis by (auto simp: has_id_def list_ex_iff image_iff) (metis imageE imageI)+
qed

lemma remapped_deps:
  fixes now existingTasks drafts
  defines "R \<equiv> remapped_new_tasks now existingTasks drafts"
  shows "length R = length drafts"
    and "i < length drafts \<Longrightarrow> d \<in> set (dependencies (R ! i)) \<Longrightarrow>
         d < task_id (R ! i) \<and> (has_id existingTasks d \<or> has_id R d) \<and>
         (\<exists>p\<in>set (dependencies (drafts ! i)). \<exists>j<length drafts.
             task_id (drafts ! j) = p \<and> task_id (R ! j) = d)"
proof -
  let ?nid = "nextId_of existingTasks"
  let ?pd = "process_drafts now 0 ?nid Map.empty drafts"
  let ?ps = "fst ?pd" and ?tm = "snd ?pd"
  have R: "R = map (remap_dependencies ?tm existingTasks ?ps) ?ps"
    by (simp add: R_def remapped_new_tasks_def split: prod.splits)
  have len: "length ?ps = length drafts" by (rule process_drafts_length)
  show "length R = length drafts" by (simp add: R len)
  have ids: "map task_id R = map task_id ?ps" by (simp add: R)
  have id: "task_id (R ! i) = task_id (?ps ! i)" if "i < length drafts" for i
    using that by (simp add: R len)
  assume i: "i < length drafts" and d: "d \<in> set (dependencies (R ! i))"
  from i d have "d \<in> set (dependencies (remap_dependencies ?tm existingTasks ?ps (?ps ! i)))"
    by (simp add: R len)
  from dependencies_remap [OF this]
  obtain p where low: "d < task_id (?ps ! i)"
    and ex: "has_id existingTasks d \<or> has_id ?ps d"
    and p: "p \<in> set (dependencies (?ps ! i))" "?tm p = Some d"
    by blast
  from process_drafts_map [OF p(2)]
  obtain j where j: "j < length drafts" "task_id (drafts ! j) = p" "task_id (?ps ! j) = d"
    by auto
  have "p \<in> set (dependencies (drafts ! i))"
    using p(1) i by (simp add: process_drafts_nth)
  moreover have "task_id (R ! j) = d" using j id by simp
  moreover have "d < task_id (R ! i)" using low i by (simp add: R len)
  moreover have "has_id existingTasks d \<or> has_id R d"
    using ex has_id_map [OF ids] by simp
  ultimately show "d < task_id (R ! i) \<and> (has_id existingTasks d \<or> has_id R d) \<and>
         (\<exists>p\<in>set (dependencies (drafts ! i)). \<exists>j<length drafts.
             task_id (drafts ! j) = p \<and> task_id (R ! j) = d)"
    using j by blast
qed

text \<open>
  C5. After the drafts of a batch are renumbered, the new tasks are as many as the drafts;
  every dependency left in a new task is lower than the task's own id, is the id of a task
  among the old or the new ones, and comes from a provisional dependency that is the
  provisional id of a draft of the batch, whose new id it is. An edge to a provisional id
  that no draft has is therefore dropped, and nothing fails.
\<close>

theorem remapped_dependencies_exist:
  "length (remapped_new_tasks now existingTasks drafts) = length drafts \<and>
   (\<forall>i<length drafts.
      (\<forall>d\<in>set (dependencies (remapped_new_tasks now existingTasks drafts ! i)).
         d < task_id (remapped_new_tasks now existingTasks drafts ! i) \<and>
         (has_id existingTasks d \<or> has_id (remapped_new_tasks now existingTasks drafts) d) \<and>
         (\<exists>p\<in>set (dependencies (drafts ! i)). \<exists>j<length drafts.
             task_id (drafts ! j) = p \<and>
             task_id (remapped_new_tasks now existingTasks drafts ! j) = d)))"
  using remapped_deps [where now = now and existingTasks = existingTasks and drafts = drafts]
  by blast

lemma example_remapped:
  "map task_id (remapped_new_tasks example_now example_existing example_drafts) = [3, 4, 5]"
  "map dependencies (remapped_new_tasks example_now example_existing example_drafts)
     = [[], [3], [4]]"
  "nextId_of example_existing = 3"
  "length example_drafts = 3"
  by (simp_all add: remapped_new_tasks_def nextId_of_def example_existing_def example_drafts_def
      example_task_def math_max_def js_plus1_def double_round_def Let_def processed_task_def
      remap_dependencies_def has_id_def or_default_def)

theorem remapped_dependencies_exist_witness:
  "length (remapped_new_tasks example_now example_existing example_drafts) = 3 \<and>
   map task_id (remapped_new_tasks example_now example_existing example_drafts) = [3, 4, 5] \<and>
   map dependencies (remapped_new_tasks example_now example_existing example_drafts)
     = [[], [3], [4]] \<and>
   has_id (remapped_new_tasks example_now example_existing example_drafts) 3"
proof -
  let ?R = "remapped_new_tasks example_now example_existing example_drafts"
  note inst = remapped_dependencies_exist [where now = example_now
      and existingTasks = example_existing and drafts = example_drafts]
  then have len: "length ?R = 3" by (simp add: example_remapped)
  have deps: "dependencies (?R ! 1) = [3]"
    using example_remapped(2) len by (simp add: list_eq_iff_nth_eq)
  have "(1::nat) < length example_drafts" by (simp add: example_remapped)
  with inst have "\<forall>d\<in>set (dependencies (?R ! 1)).
      d < task_id (?R ! 1) \<and> (has_id example_existing d \<or> has_id ?R d)"
    by blast
  with deps have "has_id example_existing 3 \<or> has_id ?R 3" by simp
  moreover have "\<not> has_id example_existing 3"
    by (simp add: has_id_def example_existing_def example_task_def)
  ultimately show ?thesis
    using len by (simp add: example_remapped)
qed

subsection \<open>Updating a checkbox twice\<close>

text \<open>
  C7 fails on the code. The title of the record is put into the replacement text of
  \<^verbatim>\<open>String.prototype.replace\<close> as it is, and there \<^verbatim>\<open>$1\<close> stands for the captured checkbox
  character. For the text \<^verbatim>\<open>- [ ] Pay $100 invoice\<close> and the record with this title and
  status \<^verbatim>\<open>done\<close>, the first update rewrites the line to \<^verbatim>\<open>- [x] Pay  00 invoice\<close>; the
  second update finds no line with the title and appends one. The same happens when the
  first update appended the line.
\<close>

theorem update_not_idempotent:
  "updateTaskInMarkdown ''- [ ] Pay $100 invoice''
     (example_record ''pay.md'' ''Pay $100 invoice'' ''done'')
     = ''- [x] Pay  00 invoice'' \<and>
   updateTaskInMarkdown
     (updateTaskInMarkdown ''- [ ] Pay $100 invoice''
        (example_record ''pay.md'' ''Pay $100 invoice'' ''done''))
     (example_record ''pay.md'' ''Pay $100 invoice'' ''done'')
     = ''- [x] Pay  00 invoice'' @ nl @ ''- [x] Pay $100 invoice'' @ nl \<and>
   updateTaskInMarkdown ''# Bills'' (example_record ''pay.md'' ''Pay $100 invoice'' ''done'')
     = ''# Bills'' @ nl @ ''- [x] Pay $100 invoice'' @ nl \<and>
   updateTaskInMarkdown
     (updateTaskInMarkdown ''# Bills'' (example_record ''pay.md'' ''Pay $100 invoice'' ''done''))
     (example_record ''pay.md'' ''Pay $100 invoice'' ''done'')
     = ''# Bills'' @ nl @ ''- [x] Pay x00 invoice'' @ nl"
  by code_simp

theorem update_not_idempotent_witness:
  "updateTaskInMarkdown
     (updateTaskInMarkdown ''- [ ] Pay $100 invoice''
        (example_record ''pay.md'' ''Pay $100 invoice'' ''done''))
     (example_record ''pay.md'' ''Pay $100 invoice'' ''done'')
   \<noteq> updateTaskInMarkdown ''- [ ] Pay $100 invoice''
        (example_record ''pay.md'' ''Pay $100 invoice'' ''done'')"
proof -
  let ?r = "example_record ''pay.md'' ''Pay $100 invoice'' ''done''"
  from update_not_idempotent
  have once: "updateTaskInMarkdown ''- [ ] Pay $100 invoice'' ?r = ''- [x] Pay  00 invoice''"
    and twice: "updateTaskInMarkdown (updateTaskInMarkdown ''- [ ] Pay $100 invoice'' ?r) ?r
                  = ''- [x] Pay  00 invoice'' @ nl @ ''- [x] Pay $100 invoice'' @ nl"
    by blast+
  show ?thesis
    by (subst twice, subst once) (simp add: nl_def)
qed

subsection \<open>Titles without replacement patterns\<close>

text \<open>
  The failure above needs a \<^verbatim>\<open>$\<close> in the title. The lemmas below follow the search for the
  checkbox line through the text and show that, for a title with no \<^verbatim>\<open>$\<close> and no line
  terminator, the second update finds the line the first one wrote and writes it again.
\<close>

lemma match_escaped_plain:
  "p \<noteq> CHR 0x5C \<Longrightarrow>
   match_escaped (p # ps) s =
     (case s of [] \<Rightarrow> None | c # cs \<Rightarrow> if c = p then match_escaped ps cs else None)"
  by (cases ps) (simp_all split: list.splits)

lemma match_escaped_escapeRegex:
  "match_escaped (escapeRegex t) s = (if startsWith s t then Some (drop (length t) s) else None)"
proof (induction t arbitrary: s)
  case Nil
  then show ?case by (simp add: escapeRegex_def startsWith_def)
next
  case (Cons c t)
  have esc: "escapeRegex (c # t) = (if isRegexSpecial c then [CHR 0x5C, c] else [c]) @ escapeRegex t"
    by (simp add: escapeRegex_def)
  show ?case
  proof (cases "isRegexSpecial c")
    case True
    then show ?thesis
      using Cons.IH by (cases s) (auto simp: esc startsWith_def)
  next
    case False
    then have "c \<noteq> CHR 0x5C" by (auto simp: isRegexSpecial_def)
    then show ?thesis
      using False Cons.IH by (cases s) (auto simp: esc startsWith_def match_escaped_plain)
  qed
qed

lemma taskRegex_at_iff:
  "taskRegex_at ttl s = Some (g, post) \<longleftrightarrow>
     (g = CHR '' '' \<or> g = CHR ''x'') \<and> s = checkbox_line g ttl @ post \<and>
     (post = [] \<or> isLineTerminator (hd post))"
proof
  assume a: "taskRegex_at ttl s = Some (g, post)"
  then have len: "6 \<le> length s" and h: "take 3 s = ''- [''" "take 2 (drop 4 s) = ''] ''"
    and g: "s ! 3 = CHR '' '' \<or> s ! 3 = CHR ''x''"
    by (auto simp: taskRegex_at_def split: if_splits)
  from a len h g have m: "match_escaped (escapeRegex ttl) (drop 6 s) = Some post"
    and e: "post = [] \<or> isLineTerminator (hd post)" and g3: "g = s ! 3"
    by (auto simp: taskRegex_at_def split: if_splits option.splits)
  from m have st: "startsWith (drop 6 s) ttl" and post: "post = drop (length ttl) (drop 6 s)"
    by (auto simp: match_escaped_escapeRegex split: if_splits)
  have "s = take 3 s @ [s ! 3] @ take 2 (drop 4 s) @ drop 6 s"
  proof -
    have e2: "drop 3 s = s ! 3 # drop 4 s"
      using len Cons_nth_drop_Suc [of 3 s] by (simp add: numeral_eq_Suc)
    have e3: "drop 4 s = take 2 (drop 4 s) @ drop 6 s"
      using append_take_drop_id [of 2 "drop 4 s"] by simp
    have "take 3 s @ [s ! 3] @ take 2 (drop 4 s) @ drop 6 s = take 3 s @ (s ! 3 # drop 4 s)"
      using e3 by simp
    also have "\<dots> = take 3 s @ drop 3 s" by (simp only: e2)
    also have "\<dots> = s" by (rule append_take_drop_id)
    finally show ?thesis by (rule sym)
  qed
  moreover have "drop 6 s = ttl @ post"
  proof -
    have "take (length ttl) (drop 6 s) = ttl" using st by (simp only: startsWith_def)
    then have "ttl @ post = take (length ttl) (drop 6 s) @ drop (length ttl) (drop 6 s)"
      by (simp only: post)
    then show ?thesis by (simp only: append_take_drop_id)
  qed
  ultimately have "s = ''- ['' @ [s ! 3] @ ''] '' @ ttl @ post"
    by (simp only: h)
  then have s: "s = checkbox_line g ttl @ post"
    by (simp only: g3 checkbox_line_def append_assoc)
  have "g = CHR '' '' \<or> g = CHR ''x''" using g by (simp only: g3)
  with s e show "(g = CHR '' '' \<or> g = CHR ''x'') \<and> s = checkbox_line g ttl @ post \<and>
     (post = [] \<or> isLineTerminator (hd post))" by blast
next
  assume "(g = CHR '' '' \<or> g = CHR ''x'') \<and> s = checkbox_line g ttl @ post \<and>
     (post = [] \<or> isLineTerminator (hd post))"
  then show "taskRegex_at ttl s = Some (g, post)"
    by (auto simp: taskRegex_at_def checkbox_line_def match_escaped_escapeRegex startsWith_def)
qed

lemma taskRegex_at_Nil [simp]: "taskRegex_at ttl [] = None"
  by (simp add: taskRegex_at_def)

lemma bol_after_Cons: "bol_after bol (c # a) = bol_after (isLineTerminator c) a"
  by (simp add: bol_after_def)

lemma exec_None:
  "taskRegex_exec ttl bol pre s = None \<Longrightarrow> unmatched ttl bol s []"
  by (induction s arbitrary: bol pre) (auto split: option.splits if_splits)

lemma exec_Some:
  "taskRegex_exec ttl bol pre s = Some (p, g, post) \<Longrightarrow>
   \<exists>a. p = rev pre @ a \<and> s = a @ checkbox_line g ttl @ post \<and> bol_after bol a \<and>
       taskRegex_at ttl (checkbox_line g ttl @ post) = Some (g, post) \<and>
       unmatched ttl bol a (checkbox_line g ttl @ post)"
proof (induction s arbitrary: bol pre)
  case Nil
  then show ?case by simp
next
  case (Cons c cs)
  show ?case
  proof (cases "bol \<and> taskRegex_at ttl (c # cs) \<noteq> None")
    case True
    with Cons.prems have at: "taskRegex_at ttl (c # cs) = Some (g, post)" and p: "p = rev pre"
      by (auto split: option.splits)
    then have "c # cs = checkbox_line g ttl @ post" by (simp add: taskRegex_at_iff)
    with at p True show ?thesis
      by (intro exI [of _ "[]"]) (simp add: bol_after_def)
  next
    case False
    with Cons.prems
    have "taskRegex_exec ttl (isLineTerminator c) (c # pre) cs = Some (p, g, post)"
      by (auto split: option.splits if_splits)
    from Cons.IH [OF this] obtain a where a: "p = rev (c # pre) @ a"
      "cs = a @ checkbox_line g ttl @ post" "bol_after (isLineTerminator c) a"
      "taskRegex_at ttl (checkbox_line g ttl @ post) = Some (g, post)"
      "unmatched ttl (isLineTerminator c) a (checkbox_line g ttl @ post)"
      by blast
    have "bol \<longrightarrow> taskRegex_at ttl (c # cs) = None"
      using False by blast
    then have "bol \<longrightarrow> taskRegex_at ttl (c # a @ checkbox_line g ttl @ post) = None"
      unfolding a(2) .
    with a show ?thesis
      by (intro exI [of _ "c # a"]) (simp add: bol_after_Cons)
  qed
qed

lemma exec_skip:
  "unmatched ttl bol a s \<Longrightarrow>
   taskRegex_exec ttl bol pre (a @ s) = taskRegex_exec ttl (bol_after bol a) (rev a @ pre) s"
proof (induction a arbitrary: bol pre)
  case Nil
  then show ?case by (simp add: bol_after_def)
next
  case (Cons c a)
  then have "taskRegex_exec ttl bol pre ((c # a) @ s)
               = taskRegex_exec ttl (isLineTerminator c) (c # pre) (a @ s)"
    by auto
  also have "\<dots> = taskRegex_exec ttl (bol_after (isLineTerminator c) a) (rev a @ c # pre) s"
    using Cons.prems by (intro Cons.IH) simp
  finally show ?case by (simp add: bol_after_Cons)
qed

lemma exec_here:
  "bol \<Longrightarrow> taskRegex_at ttl s = Some (g, post) \<Longrightarrow>
   taskRegex_exec ttl bol pre s = Some (rev pre, g, post)"
  by (cases s) simp_all

lemma getSubstitution_plain:
  "CHR ''$'' \<notin> set tpl \<Longrightarrow> getSubstitution m pre post g tpl = tpl"
proof (induction tpl rule: induct_list012)
  case 1
  then show ?case by simp
next
  case (2 x)
  then show ?case by simp
next
  case (3 x y zs)
  then have "x \<noteq> CHR ''$''" and "getSubstitution m pre post g (y # zs) = y # zs"
    by auto
  then show ?case by simp
qed

lemma checkbox_line_lt_free:
  assumes "\<forall>c\<in>set ttl. \<not> isLineTerminator c" "g = CHR '' '' \<or> g = CHR ''x''"
  shows "\<forall>c\<in>set (checkbox_line g ttl). \<not> isLineTerminator c"
  using assms by (auto simp: checkbox_line_def isLineTerminator_def)

lemma at_prefix_free:
  assumes lt: "\<forall>c\<in>set ttl. \<not> isLineTerminator c"
    and a2: "a2 \<noteq> []" "isLineTerminator (last a2)"
    and none: "taskRegex_at ttl (a2 @ x) = None"
  shows "taskRegex_at ttl (a2 @ y) = None"
proof (rule ccontr)
  assume "taskRegex_at ttl (a2 @ y) \<noteq> None"
  then obtain g post where "taskRegex_at ttl (a2 @ y) = Some (g, post)" by auto
  then have g: "g = CHR '' '' \<or> g = CHR ''x''"
    and eq: "a2 @ y = checkbox_line g ttl @ post"
    and e: "post = [] \<or> isLineTerminator (hd post)"
    by (simp_all add: taskRegex_at_iff)
  have free: "\<forall>c\<in>set (checkbox_line g ttl). \<not> isLineTerminator c"
    by (rule checkbox_line_lt_free [OF lt g])
  have in_a2: "last a2 \<in> set a2" using a2(1) by simp
  from eq obtain us where
    "(a2 = checkbox_line g ttl @ us \<and> us @ y = post) \<or> (a2 @ us = checkbox_line g ttl \<and> y = us @ post)"
    unfolding append_eq_append_conv2 by blast
  then show False
  proof
    assume c: "a2 = checkbox_line g ttl @ us \<and> us @ y = post"
    have "us \<noteq> []"
    proof
      assume "us = []"
      with c have "a2 = checkbox_line g ttl" by simp
      with in_a2 free a2(2) show False by auto
    qed
    then have "hd (us @ x) = hd us" "hd post = hd us" "post \<noteq> []" using c by auto
    with e have "isLineTerminator (hd (us @ x))" by simp
    then have "taskRegex_at ttl (checkbox_line g ttl @ us @ x) = Some (g, us @ x)"
      using g by (simp add: taskRegex_at_iff)
    with none c show False by simp
  next
    assume c: "a2 @ us = checkbox_line g ttl \<and> y = us @ post"
    then have "set (a2 @ us) = set (checkbox_line g ttl)" by (simp only:)
    then have "last a2 \<in> set (checkbox_line g ttl)" using in_a2 by auto
    with free a2(2) show False by blast
  qed
qed

lemma at_before_newline:
  assumes lt: "\<forall>c\<in>set ttl. \<not> isLineTerminator c"
    and none: "taskRegex_at ttl c2 = None"
  shows "taskRegex_at ttl (c2 @ CHR 0x0A # rest) = None"
proof (rule ccontr)
  assume "taskRegex_at ttl (c2 @ CHR 0x0A # rest) \<noteq> None"
  then obtain g post where "taskRegex_at ttl (c2 @ CHR 0x0A # rest) = Some (g, post)" by auto
  then have g: "g = CHR '' '' \<or> g = CHR ''x''"
    and eq: "c2 @ CHR 0x0A # rest = checkbox_line g ttl @ post"
    and e: "post = [] \<or> isLineTerminator (hd post)"
    by (simp_all add: taskRegex_at_iff)
  have free: "\<forall>c\<in>set (checkbox_line g ttl). \<not> isLineTerminator c"
    by (rule checkbox_line_lt_free [OF lt g])
  from eq obtain us where
    "(c2 = checkbox_line g ttl @ us \<and> us @ CHR 0x0A # rest = post) \<or>
     (c2 @ us = checkbox_line g ttl \<and> CHR 0x0A # rest = us @ post)"
    unfolding append_eq_append_conv2 by blast
  then show False
  proof
    assume c: "c2 = checkbox_line g ttl @ us \<and> us @ CHR 0x0A # rest = post"
    have "us = [] \<or> isLineTerminator (hd us)"
    proof (cases us)
      case Nil
      then show ?thesis by simp
    next
      case (Cons u us')
      with c have "hd post = u" "post \<noteq> []" by auto
      with e Cons show ?thesis by simp
    qed
    then have "taskRegex_at ttl (checkbox_line g ttl @ us) = Some (g, us)"
      using g by (simp add: taskRegex_at_iff)
    with none c show False by simp
  next
    assume c: "c2 @ us = checkbox_line g ttl \<and> CHR 0x0A # rest = us @ post"
    show False
    proof (cases us)
      case Nil
      with c have "c2 = checkbox_line g ttl" by simp
      moreover have "taskRegex_at ttl (checkbox_line g ttl @ []) = Some (g, [])"
        using g by (simp only: taskRegex_at_iff) simp
      ultimately show False using none by simp
    next
      case (Cons u us')
      with c have "u = CHR 0x0A" by simp
      with Cons have "CHR 0x0A \<in> set (c2 @ us)" by simp
      with c have "CHR 0x0A \<in> set (checkbox_line g ttl)" by (simp only:)
      moreover have "isLineTerminator (CHR 0x0A)" by (simp add: isLineTerminator_def)
      ultimately show False using free by blast
    qed
  qed
qed

lemma unmatched_transfer:
  assumes lt: "\<forall>c\<in>set ttl. \<not> isLineTerminator c"
  shows "a = [] \<or> isLineTerminator (last a) \<Longrightarrow> unmatched ttl bol a x \<Longrightarrow> unmatched ttl bol a y"
proof (induction a arbitrary: bol)
  case Nil
  then show ?case by simp
next
  case (Cons c a)
  from Cons.prems have last: "isLineTerminator (last (c # a))" by simp
  have here: "bol \<longrightarrow> taskRegex_at ttl (c # a @ y) = None"
  proof
    assume bol
    with Cons.prems have n: "taskRegex_at ttl ((c # a) @ x) = None" by simp
    have "c # a \<noteq> []" by simp
    from at_prefix_free [OF lt this last n]
    have "taskRegex_at ttl ((c # a) @ y) = None" .
    then show "taskRegex_at ttl (c # a @ y) = None" by simp
  qed
  have "a = [] \<or> isLineTerminator (last a)" using last by (cases a) simp_all
  then have "unmatched ttl (isLineTerminator c) a y"
    using Cons.prems by (intro Cons.IH) simp_all
  with here show ?case by simp
qed

lemma unmatched_newline:
  assumes lt: "\<forall>c\<in>set ttl. \<not> isLineTerminator c"
  shows "unmatched ttl bol a [] \<Longrightarrow> unmatched ttl bol (a @ [CHR 0x0A]) rest"
proof (induction a arbitrary: bol)
  case Nil
  then show ?case by (simp add: taskRegex_at_def)
next
  case (Cons c a)
  have here: "bol \<longrightarrow> taskRegex_at ttl (c # (a @ [CHR 0x0A]) @ rest) = None"
  proof
    assume bol
    with Cons.prems have "taskRegex_at ttl (c # a) = None" by simp
    from at_before_newline [OF lt this, of rest]
    show "taskRegex_at ttl (c # (a @ [CHR 0x0A]) @ rest) = None" by simp
  qed
  have "unmatched ttl (isLineTerminator c) (a @ [CHR 0x0A]) rest"
    using Cons.prems by (intro Cons.IH) simp
  with here show ?case by simp
qed

lemma update_found:
  assumes "taskRegex_exec (title r) True [] content = Some (p, g, post)"
    and "CHR ''$'' \<notin> set (title r)"
  shows "updateTaskInMarkdown content r
           = p @ checkbox_line (if status r = ''done'' then CHR ''x'' else CHR '' '') (title r) @ post"
proof -
  have "CHR ''$'' \<notin> set (''- '' @ (if status r = ''done'' then ''[x]'' else ''[ ]'') @ '' '' @ title r)"
    using assms(2) by simp
  then show ?thesis
    using assms(1) by (simp add: updateTaskInMarkdown_def Let_def getSubstitution_plain checkbox_line_def)
qed

lemma update_appended:
  assumes "taskRegex_exec (title r) True [] content = None"
  shows "updateTaskInMarkdown content r
           = (content @ [CHR 0x0A]) @
             checkbox_line (if status r = ''done'' then CHR ''x'' else CHR '' '') (title r) @ [CHR 0x0A]"
  using assms by (simp add: updateTaskInMarkdown_def Let_def checkbox_line_def nl_def)

lemma exec_at_line:
  assumes "unmatched ttl True a (checkbox_line g ttl @ post)"
    and "a = [] \<or> isLineTerminator (last a)"
    and "g = CHR '' '' \<or> g = CHR ''x''"
    and "post = [] \<or> isLineTerminator (hd post)"
  shows "taskRegex_exec ttl True [] (a @ checkbox_line g ttl @ post) = Some (a, g, post)"
proof -
  have bol: "bol_after True a" using assms(2) by (auto simp: bol_after_def)
  have at: "taskRegex_at ttl (checkbox_line g ttl @ post) = Some (g, post)"
    using assms(3,4) by (simp add: taskRegex_at_iff)
  have "taskRegex_exec ttl True [] (a @ checkbox_line g ttl @ post)
          = taskRegex_exec ttl (bol_after True a) (rev a @ []) (checkbox_line g ttl @ post)"
    by (rule exec_skip [OF assms(1)])
  also have "\<dots> = Some (rev (rev a @ []), g, post)"
    using bol at by (simp add: exec_here)
  finally show ?thesis by simp
qed

text \<open>
  Where the title holds no \<^verbatim>\<open>$\<close> and no line terminator, updating twice is updating once.
\<close>

lemma update_idempotent_plain_title:
  assumes dollar: "CHR ''$'' \<notin> set (title r)"
    and lt: "\<forall>c\<in>set (title r). \<not> isLineTerminator c"
  shows "updateTaskInMarkdown (updateTaskInMarkdown content r) r = updateTaskInMarkdown content r"
proof -
  let ?ttl = "title r"
  let ?c = "if status r = ''done'' then CHR ''x'' else CHR '' ''"
  have c: "?c = CHR '' '' \<or> ?c = CHR ''x''" by simp
  show ?thesis
  proof (cases "taskRegex_exec ?ttl True [] content")
    case None
    then have once: "updateTaskInMarkdown content r
        = (content @ [CHR 0x0A]) @ checkbox_line ?c ?ttl @ [CHR 0x0A]"
      by (rule update_appended)
    have "unmatched ?ttl True content []" using None by (rule exec_None)
    then have "unmatched ?ttl True (content @ [CHR 0x0A]) (checkbox_line ?c ?ttl @ [CHR 0x0A])"
      by (rule unmatched_newline [OF lt])
    then have "taskRegex_exec ?ttl True [] ((content @ [CHR 0x0A]) @ checkbox_line ?c ?ttl @ [CHR 0x0A])
                 = Some (content @ [CHR 0x0A], ?c, [CHR 0x0A])"
      using c by (intro exec_at_line) (simp_all add: isLineTerminator_def)
    then have "updateTaskInMarkdown ((content @ [CHR 0x0A]) @ checkbox_line ?c ?ttl @ [CHR 0x0A]) r
                 = (content @ [CHR 0x0A]) @ checkbox_line ?c ?ttl @ [CHR 0x0A]"
      using dollar by (rule update_found)
    then show ?thesis by (simp only: once)
  next
    case (Some m)
    then obtain p g post where m: "taskRegex_exec ?ttl True [] content = Some (p, g, post)"
      by (cases m) auto
    then have once: "updateTaskInMarkdown content r = p @ checkbox_line ?c ?ttl @ post"
      using dollar by (rule update_found)
    from exec_Some [OF m] obtain a where a: "p = a" "content = a @ checkbox_line g ?ttl @ post"
      "bol_after True a" "taskRegex_at ?ttl (checkbox_line g ?ttl @ post) = Some (g, post)"
      "unmatched ?ttl True a (checkbox_line g ?ttl @ post)"
      by auto
    have last: "a = [] \<or> isLineTerminator (last a)"
      using a(3) by (cases "a = []") (simp_all add: bol_after_def)
    have post: "post = [] \<or> isLineTerminator (hd post)" using a(4) by (simp add: taskRegex_at_iff)
    have "unmatched ?ttl True a (checkbox_line ?c ?ttl @ post)"
      using last a(5) by (rule unmatched_transfer [OF lt])
    then have "taskRegex_exec ?ttl True [] (a @ checkbox_line ?c ?ttl @ post) = Some (a, ?c, post)"
      using last c post by (rule exec_at_line)
    then have "updateTaskInMarkdown (a @ checkbox_line ?c ?ttl @ post) r
                 = a @ checkbox_line ?c ?ttl @ post"
      using dollar by (rule update_found)
    then show ?thesis by (simp only: once a(1))
  qed
qed

end
